theory Spec2Isabelle
  imports Complex_Main
begin

section \<open>Python values\<close>

text \<open>
  The values that flow through \<^verbatim>\<open>src/main.py\<close>.  A Python \<^verbatim>\<open>int\<close> is an unbounded integer.
  A Python \<^verbatim>\<open>float\<close> is an IEEE 754 binary64 number: a finite one is represented by the
  rational number it denotes, next to the two infinities and NaN.  The sign of a zero is
  not represented: \<^verbatim>\<open>-0.0\<close> and \<^verbatim>\<open>0.0\<close> are one float, which no comparison, truth test or
  division of the program tells apart.
\<close>

datatype pyfloat = Finite rat | PosInf | NegInf | NaN

text \<open>
  The integer nearest to a rational, a tie going to the even one.
\<close>

definition round_half_even :: "rat \<Rightarrow> int" where
  "round_half_even q =
     (let f = \<lfloor>q\<rfloor>; d = q - of_int f
      in if d < 1 / 2 then f else if 1 / 2 < d then f + 1 else if even f then f else f + 1)"

text \<open>
  Rounding to binary64.  \<open>binade a\<close> is the exponent \<open>e\<close> of the binade that holds the
  magnitude \<open>a\<close>, \<open>2 powi e \<le> a < 2 powi (e + 1)\<close>, and -1022 for every smaller
  magnitude (the subnormal numbers); there is none from \<open>2 powi 1024\<close> on.  The floats of
  that binade are the multiples of \<open>2 powi (e - 52)\<close>.  \<open>round_double q\<close> is the float
  nearest to \<open>q\<close>, a tie going to the even multiple (the default rounding mode, the one
  CPython runs in); a result of magnitude \<open>2 powi 1024\<close> or more is an infinity.
\<close>

definition binade :: "rat \<Rightarrow> int option" where
  "binade a = List.find (\<lambda>e. a < 2 powi (e + 1)) [- 1022..1023]"

definition round_double :: "rat \<Rightarrow> pyfloat" where
  "round_double q =
     (case binade \<bar>q\<bar> of
        None \<Rightarrow> (if 0 < q then PosInf else NegInf)
      | Some e \<Rightarrow>
          (let ulp = 2 powi (e - 52);
               r = of_int (round_half_even (q / ulp)) * ulp
           in if \<bar>r\<bar> < 2 powi 1024 then Finite r else if 0 < q then PosInf else NegInf))"

text \<open>
  Numbers, values and the exceptions that the program can meet.
\<close>

datatype pynum = PInt int | PFloat pyfloat

datatype pyval = PyNone | PyBool bool | PyNum pynum | PyStr string

datatype py_error = ZeroDivisionError | OverflowError | UaError string

text \<open>
  A float literal of the source denotes the float nearest to its decimal.
\<close>

definition py_float :: "rat \<Rightarrow> pyfloat" where
  "py_float q = round_double q"

text \<open>
  The conversion of an \<^verbatim>\<open>int\<close> to \<^verbatim>\<open>float\<close>, as \<^verbatim>\<open>float(i)\<close> and every mixed operation do
  it: correctly rounded, and \<^verbatim>\<open>OverflowError\<close> when the integer is too large.
\<close>

definition float_of_int :: "int \<Rightarrow> py_error + pyfloat" where
  "float_of_int i =
     (case round_double (of_int i) of Finite r \<Rightarrow> Inr (Finite r) | x \<Rightarrow> Inl OverflowError)"

fun as_float :: "pynum \<Rightarrow> py_error + pyfloat" where
  "as_float (PInt i) = float_of_int i"
| "as_float (PFloat x) = Inr x"

text \<open>
  Float arithmetic: the exact result rounded to nearest, with the IEEE 754 results on
  infinities and NaN.  Addition, subtraction and multiplication of floats never raise.
\<close>

fun positive :: "pyfloat \<Rightarrow> bool" where
  "positive (Finite a) = (0 < a)"
| "positive PosInf = True"
| "positive NegInf = False"
| "positive NaN = False"

fun float_neg :: "pyfloat \<Rightarrow> pyfloat" where
  "float_neg (Finite a) = Finite (- a)"
| "float_neg PosInf = NegInf"
| "float_neg NegInf = PosInf"
| "float_neg NaN = NaN"

fun float_add :: "pyfloat \<Rightarrow> pyfloat \<Rightarrow> pyfloat" where
  "float_add (Finite a) (Finite b) = round_double (a + b)"
| "float_add NaN y = NaN"
| "float_add x NaN = NaN"
| "float_add PosInf NegInf = NaN"
| "float_add NegInf PosInf = NaN"
| "float_add PosInf y = PosInf"
| "float_add x PosInf = PosInf"
| "float_add NegInf y = NegInf"
| "float_add x NegInf = NegInf"

definition float_sub :: "pyfloat \<Rightarrow> pyfloat \<Rightarrow> pyfloat" where
  "float_sub x y = float_add x (float_neg y)"

fun float_mul :: "pyfloat \<Rightarrow> pyfloat \<Rightarrow> pyfloat" where
  "float_mul (Finite a) (Finite b) = round_double (a * b)"
| "float_mul NaN y = NaN"
| "float_mul x NaN = NaN"
| "float_mul x y =
     (if x = Finite 0 \<or> y = Finite 0 then NaN
      else if positive x = positive y then PosInf else NegInf)"

fun float_div :: "pyfloat \<Rightarrow> pyfloat \<Rightarrow> pyfloat" where
  "float_div (Finite a) (Finite b) = round_double (a / b)"
| "float_div NaN y = NaN"
| "float_div x NaN = NaN"
| "float_div (Finite a) y = Finite 0"
| "float_div x (Finite b) = (if positive x = (0 < b) then PosInf else NegInf)"
| "float_div x y = NaN"

fun float_le :: "pyfloat \<Rightarrow> pyfloat \<Rightarrow> bool" where
  "float_le NaN y = False"
| "float_le x NaN = False"
| "float_le (Finite a) (Finite b) = (a \<le> b)"
| "float_le NegInf y = True"
| "float_le x PosInf = True"
| "float_le x y = False"

text \<open>
  The exact numeric content of a number.  Python compares an \<^verbatim>\<open>int\<close> with a \<^verbatim>\<open>float\<close> by
  their exact contents, without converting the \<^verbatim>\<open>int\<close>.
\<close>

fun num_value :: "pynum \<Rightarrow> pyfloat" where
  "num_value (PInt i) = Finite (of_int i)"
| "num_value (PFloat x) = x"

text \<open>
  \<^verbatim>\<open>a + b\<close>, \<^verbatim>\<open>a - b\<close>, \<^verbatim>\<open>a * b\<close>: an exact \<^verbatim>\<open>int\<close> when both operands are ints; otherwise
  an \<^verbatim>\<open>int\<close> operand is converted first and the operation is the one on floats.
\<close>

definition float_op ::
  "(pyfloat \<Rightarrow> pyfloat \<Rightarrow> pyfloat) \<Rightarrow> pynum \<Rightarrow> pynum \<Rightarrow> py_error + pynum" where
  "float_op f a b =
     (case as_float a of
        Inl e \<Rightarrow> Inl e
      | Inr x \<Rightarrow> (case as_float b of Inl e \<Rightarrow> Inl e | Inr y \<Rightarrow> Inr (PFloat (f x y))))"

fun py_add :: "pynum \<Rightarrow> pynum \<Rightarrow> py_error + pynum" where
  "py_add (PInt i) (PInt j) = Inr (PInt (i + j))"
| "py_add a b = float_op float_add a b"

fun py_sub :: "pynum \<Rightarrow> pynum \<Rightarrow> py_error + pynum" where
  "py_sub (PInt i) (PInt j) = Inr (PInt (i - j))"
| "py_sub a b = float_op float_sub a b"

fun py_mul :: "pynum \<Rightarrow> pynum \<Rightarrow> py_error + pynum" where
  "py_mul (PInt i) (PInt j) = Inr (PInt (i * j))"
| "py_mul a b = float_op float_mul a b"

text \<open>
  \<^verbatim>\<open>a / b\<close>, true division.  Of two ints: \<^verbatim>\<open>ZeroDivisionError\<close> for a zero divisor,
  otherwise the exact quotient correctly rounded, \<^verbatim>\<open>OverflowError\<close> when it is too large
  for a float; a quotient too small rounds to \<^verbatim>\<open>0.0\<close>.  Otherwise an \<^verbatim>\<open>int\<close> operand is
  converted first, a divisor of \<^verbatim>\<open>0.0\<close> raises \<^verbatim>\<open>ZeroDivisionError\<close> and every other
  division is the one on floats, which does not raise; \<open>float_div\<close> is applied to no
  other divisor than a float that is not \<^verbatim>\<open>0.0\<close>.
\<close>

fun py_truediv :: "pynum \<Rightarrow> pynum \<Rightarrow> py_error + pynum" where
  "py_truediv (PInt i) (PInt j) =
     (if j = 0 then Inl ZeroDivisionError
      else case round_double (of_int i / of_int j) of
             Finite r \<Rightarrow> Inr (PFloat (Finite r))
           | x \<Rightarrow> Inl OverflowError)"
| "py_truediv a b =
     (case as_float a of
        Inl e \<Rightarrow> Inl e
      | Inr x \<Rightarrow>
          (case as_float b of
             Inl e \<Rightarrow> Inl e
           | Inr y \<Rightarrow> if y = Finite 0 then Inl ZeroDivisionError else Inr (PFloat (float_div x y))))"

text \<open>
  \<^verbatim>\<open>a <= b\<close>, \<^verbatim>\<open>a >= b\<close> and \<^verbatim>\<open>a == b\<close> on numbers; every comparison with NaN is false.
\<close>

definition py_le :: "pynum \<Rightarrow> pynum \<Rightarrow> bool" where
  "py_le a b = float_le (num_value a) (num_value b)"

definition py_ge :: "pynum \<Rightarrow> pynum \<Rightarrow> bool" where
  "py_ge a b = float_le (num_value b) (num_value a)"

definition py_eq :: "pynum \<Rightarrow> pynum \<Rightarrow> bool" where
  "py_eq a b = (num_value a = num_value b \<and> num_value a \<noteq> NaN)"

text \<open>
  \<^verbatim>\<open>ua.Double(x)\<close>: \<^verbatim>\<open>ua.Double\<close> is a subclass of \<^verbatim>\<open>float\<close>.
\<close>

definition ua_Double :: "pynum \<Rightarrow> py_error + pynum" where
  "ua_Double x = (case as_float x of Inl e \<Rightarrow> Inl e | Inr y \<Rightarrow> Inr (PFloat y))"

text \<open>
  \<^verbatim>\<open>round(x, 2)\<close>.  An \<^verbatim>\<open>int\<close> is returned unchanged.  A finite float is rounded, by its
  exact content, to the nearest whole number of hundredths, a tie going to the even one,
  and the result is the float nearest to that decimal.  An infinity and NaN are returned
  unchanged.
\<close>

fun py_round2 :: "pynum \<Rightarrow> py_error + pynum" where
  "py_round2 (PInt i) = Inr (PInt i)"
| "py_round2 (PFloat (Finite q)) =
     (case round_double (of_int (round_half_even (q * 100)) / 100) of
        Finite r \<Rightarrow> Inr (PFloat (Finite r))
      | x \<Rightarrow> Inl OverflowError)"
| "py_round2 (PFloat x) = Inr (PFloat x)"

text \<open>
  Truth value testing, as \<^verbatim>\<open>if x:\<close> does it.
\<close>

fun truthy :: "pyval \<Rightarrow> bool" where
  "truthy PyNone = False"
| "truthy (PyBool b) = b"
| "truthy (PyNum n) = (num_value n \<noteq> Finite 0)"
| "truthy (PyStr s) = (s \<noteq> [])"

text \<open>
  \<^verbatim>\<open>isinstance(val, bool)\<close>.
\<close>

fun isinstance_bool :: "pyval \<Rightarrow> bool" where
  "isinstance_bool (PyBool b) = True"
| "isinstance_bool v = False"

text \<open>
  \<^verbatim>\<open>d.get(key)\<close>: \<^verbatim>\<open>None\<close> when the key is absent.
\<close>

type_synonym position = "string \<Rightarrow> pyval option"

definition dict_get :: "position \<Rightarrow> string \<Rightarrow> pyval" where
  "dict_get d key = (case d key of None \<Rightarrow> PyNone | Some v \<Rightarrow> v)"

section \<open>Effects\<close>

text \<open>
  The program acts only through awaited calls on the OPC UA server and its nodes, on the
  event loop and on the logger.  A coroutine is modelled by the list of calls it issues,
  in order, together with the exception that ends it, if any.  A node is identified by
  its node id; two node objects are equal exactly when their node ids are.
\<close>

type_synonym node = nat

datatype event =
    WriteValue node pyval
  | WriteAttributeValue node pyval
  | Sleep pynum
  | LogError string

text \<open>
  What has been observed of a coroutine: the calls it issued and, when an exception left
  it, that exception, raised after the last of the calls.  \<open>emit es r\<close> puts the calls
  \<open>es\<close> before those of \<open>r\<close>.
\<close>

type_synonym run = "event list \<times> py_error option"

definition emit :: "event list \<Rightarrow> run \<Rightarrow> run" where
  "emit es r = (es @ fst r, snd r)"

text \<open>
  The writes of a trace: which node, which content.
\<close>

fun writes :: "event list \<Rightarrow> (node \<times> pyval) list" where
  "writes [] = []"
| "writes (WriteValue n v # es) = (n, v) # writes es"
| "writes (WriteAttributeValue n v # es) = (n, v) # writes es"
| "writes (e # es) = writes es"

section \<open>The generators\<close>

text \<open>
  Each generator is a \<^verbatim>\<open>while True\<close> loop that never returns.  The first argument of a
  loop function is the number of iterations observed: \<open>toggle_loop k\<close> is the trace of
  the first \<open>k\<close> iterations, for every \<open>k\<close>.  A loop that does arithmetic ends early
  when an operation raises.
\<close>

fun toggle_loop :: "nat \<Rightarrow> node \<Rightarrow> pynum \<Rightarrow> bool \<Rightarrow> event list" where
  "toggle_loop 0 data refresh value = []"
| "toggle_loop (Suc k) data refresh value =
     WriteValue data (PyBool value) # Sleep refresh # toggle_loop k data refresh (\<not> value)"

definition toggle_data :: "nat \<Rightarrow> node \<Rightarrow> pynum \<Rightarrow> bool \<Rightarrow> event list" where
  "toggle_data k data refresh init = (let value = init in toggle_loop k data refresh value)"

fun periodic_loop :: "nat \<Rightarrow> node \<Rightarrow> pynum \<Rightarrow> pynum \<Rightarrow> pynum \<Rightarrow> run" where
  "periodic_loop 0 data refresh value increment = ([], None)"
| "periodic_loop (Suc k) data refresh value increment =
     emit [WriteValue data (PyNum value), Sleep refresh]
       (case py_add value increment of
          Inl e \<Rightarrow> ([], Some e)
        | Inr value \<Rightarrow> periodic_loop k data refresh value increment)"

definition periodic_data :: "nat \<Rightarrow> node \<Rightarrow> pynum \<Rightarrow> pynum \<Rightarrow> pynum \<Rightarrow> run" where
  "periodic_data k data refresh init increment =
     (let value = init in periodic_loop k data refresh value increment)"

text \<open>
  \<^verbatim>\<open>random.uniform(a, b)\<close> is \<^verbatim>\<open>a + (b - a) * self.random()\<close> in the standard library.
  The successive results of \<^verbatim>\<open>random()\<close> are the stream \<open>random\<close>; \<open>i\<close> counts the
  draws made.  \<open>draw\<close> is the right-hand side \<^verbatim>\<open>round(random.uniform(min, max), 2)\<close>.
\<close>

definition uniform :: "pynum \<Rightarrow> pynum \<Rightarrow> pyfloat \<Rightarrow> py_error + pynum" where
  "uniform a b u =
     (case py_sub b a of
        Inl e \<Rightarrow> Inl e
      | Inr d \<Rightarrow> (case py_mul d (PFloat u) of Inl e \<Rightarrow> Inl e | Inr m \<Rightarrow> py_add a m))"

definition draw :: "pynum \<Rightarrow> pynum \<Rightarrow> pyfloat \<Rightarrow> py_error + pynum" where
  "draw minv maxv u = (case uniform minv maxv u of Inl e \<Rightarrow> Inl e | Inr x \<Rightarrow> py_round2 x)"

fun random_loop ::
  "(nat \<Rightarrow> rat) \<Rightarrow> nat \<Rightarrow> nat \<Rightarrow> node \<Rightarrow> pynum \<Rightarrow> pynum \<Rightarrow> pynum \<Rightarrow> pynum \<Rightarrow> run" where
  "random_loop random i 0 data refresh value minv maxv = ([], None)"
| "random_loop random i (Suc k) data refresh value minv maxv =
     emit [WriteValue data (PyNum value), Sleep refresh]
       (case draw minv maxv (Finite (random i)) of
          Inl e \<Rightarrow> ([], Some e)
        | Inr value \<Rightarrow> random_loop random (Suc i) k data refresh value minv maxv)"

definition random_data ::
  "(nat \<Rightarrow> rat) \<Rightarrow> nat \<Rightarrow> node \<Rightarrow> pynum \<Rightarrow> pynum \<Rightarrow> pynum \<Rightarrow> pynum \<Rightarrow> run" where
  "random_data random k data refresh init minv maxv =
     (let value = init in random_loop random 0 k data refresh value minv maxv)"

text \<open>
  In the loop \<^verbatim>\<open>ua.Double(value)\<close> is evaluated before the write, the two comparisons and
  the step after the sleep.
\<close>

fun cyclic_loop ::
  "nat \<Rightarrow> node \<Rightarrow> pynum \<Rightarrow> pynum \<Rightarrow> pynum \<Rightarrow> pynum \<Rightarrow> pynum \<Rightarrow> bool \<Rightarrow> run" where
  "cyclic_loop 0 data refresh step minv maxv value increasing = ([], None)"
| "cyclic_loop (Suc k) data refresh step minv maxv value increasing =
     (case ua_Double value of
        Inl e \<Rightarrow> ([], Some e)
      | Inr d \<Rightarrow>
          emit [WriteValue data (PyNum d), Sleep refresh]
            (let increasing = (if py_ge value maxv then False else increasing);
                 increasing = (if py_le value minv then True else increasing)
             in case (if increasing then py_add value step else py_sub value step) of
                  Inl e \<Rightarrow> ([], Some e)
                | Inr value \<Rightarrow> cyclic_loop k data refresh step minv maxv value increasing))"

text \<open>
  The subtraction and the two divisions come before the loop: when one raises, the
  coroutine ends with the error and has issued no call.
\<close>

definition cyclic_data ::
  "nat \<Rightarrow> node \<Rightarrow> pynum \<Rightarrow> pynum \<Rightarrow> pynum \<Rightarrow> pynum \<Rightarrow> pynum \<Rightarrow> run" where
  "cyclic_data k data cycle_time step init minv maxv =
     (let value = init
      in case py_sub maxv minv of
           Inl e \<Rightarrow> ([], Some e)
         | Inr interval \<Rightarrow>
             (case py_truediv interval step of
                Inl e \<Rightarrow> ([], Some e)
              | Inr spi \<Rightarrow>
                  (case py_truediv cycle_time spi of
                     Inl e \<Rightarrow> ([], Some e)
                   | Inr refresh \<Rightarrow>
                       (let increasing = True
                        in cyclic_loop k data refresh step minv maxv value increasing))))"

section \<open>The mirror handler\<close>

text \<open>
  \<^verbatim>\<open>class MirrorHandler\<close>.  The field \<^verbatim>\<open>server\<close> is the server the handler calls; its
  answer to \<^verbatim>\<open>write_attribute_value\<close> is the first argument of the handler's model:
  \<open>None\<close> when the call returns, \<open>Some e\<close> when it raises \<open>e\<close>.  The result of
  the coroutine is the trace of its calls and the exception that leaves it, if any.
\<close>

record MirrorHandler =
  orig_data :: node
  copy_data :: node
  sub :: "nat option"

definition datachange_notification ::
  "(node \<Rightarrow> pyval \<Rightarrow> py_error option) \<Rightarrow> MirrorHandler \<Rightarrow> node \<Rightarrow> pyval \<Rightarrow> 'd \<Rightarrow>
     event list \<times> py_error option" where
  "datachange_notification write_attribute_value self node val data =
     (if orig_data self = node then
        (if \<not> isinstance_bool val then ([LogError ''Node value is not boolean''], None)
         else ([WriteAttributeValue (copy_data self) val],
               write_attribute_value (copy_data self) val))
      else ([], None))"

section \<open>The position feed\<close>

text \<open>
  \<^verbatim>\<open>class TCXUpdateHandler\<close>.  \<^verbatim>\<open>"lat={},long={}".format(lat, long)\<close> renders each
  argument with the built-in \<^verbatim>\<open>format\<close>, taken as the parameter \<open>fmt\<close>.
\<close>

record TCXUpdateHandler =
  filepath :: string
  lat_data :: node
  long_data :: node
  lat_long_data :: node

definition on_update :: "(pyval \<Rightarrow> string) \<Rightarrow> TCXUpdateHandler \<Rightarrow> position \<Rightarrow> event list" where
  "on_update fmt self position =
     (let lat = dict_get position ''latitude'';
          long = dict_get position ''longitude'';
          lat_long = ''lat='' @ fmt lat @ '',long='' @ fmt long
      in (if truthy lat then [WriteValue (lat_data self) lat] else []) @
         (if truthy long then [WriteValue (long_data self) long] else []) @
         (if truthy long \<and> truthy lat then [WriteValue (lat_long_data self) (PyStr lat_long)]
          else []))"

text \<open>
  Modelled from the spec: the module \<^verbatim>\<open>tcx_handler\<close> (class \<^verbatim>\<open>TCXHandler\<close>) is not among
  the sources.  Once started it produces the records of the track in order and invokes
  the registered callback once for every record.
\<close>

definition tcx_start :: "(position \<Rightarrow> event list) \<Rightarrow> position list \<Rightarrow> event list" where
  "tcx_start callback track = concat (map callback track)"

section \<open>Startup\<close>

text \<open>
  The requests \<^verbatim>\<open>main\<close> sends to the server while it populates the address space.  The
  server is an external collaborator: the model records each request and hands out node
  ids in the order of creation.
\<close>

datatype ua_type = Boolean | Double | String

record server =
  variables :: "(string \<times> pyval \<times> ua_type) list"
  historized :: "(node \<times> pyval \<times> pyval) list"
  writable :: "node list"
  monitored :: "(nat \<times> node) list"

definition new_server :: server where
  "new_server = \<lparr>variables = [], historized = [], writable = [], monitored = []\<rparr>"

definition add_variable :: "string \<Rightarrow> pyval \<Rightarrow> ua_type \<Rightarrow> server \<Rightarrow> node \<times> server" where
  "add_variable name val dt s =
     (length (variables s), s\<lparr>variables := variables s @ [(name, val, dt)]\<rparr>)"

text \<open>\<^verbatim>\<open>server.historize_node_data_change(node, period=..., count=...)\<close>.\<close>

definition historize_node_data_change :: "node \<Rightarrow> pyval \<Rightarrow> pyval \<Rightarrow> server \<Rightarrow> server" where
  "historize_node_data_change n period count s =
     s\<lparr>historized := historized s @ [(n, period, count)]\<rparr>"

text \<open>
  \<^verbatim>\<open>MirrorHandler.start\<close>: a subscription with a publishing interval of 500 is created, the
  original node is made writable and its data changes are subscribed to.
\<close>

definition mirror_start :: "MirrorHandler \<Rightarrow> server \<Rightarrow> MirrorHandler \<times> server" where
  "mirror_start self s =
     (self\<lparr>sub := Some 500\<rparr>,
      s\<lparr>writable := writable s @ [orig_data self],
        monitored := monitored s @ [(500, orig_data self)]\<rparr>)"

text \<open>
  What \<^verbatim>\<open>main\<close> has set up when it starts serving: the server's registrations, the six
  generator tasks (each a function from the number of iterations observed to the trace),
  the mirror handler and the position handler.  Arguments a call leaves out take the
  defaults of the function's signature.
\<close>

record startup =
  srv :: server
  bool_task :: "nat \<Rightarrow> event list"
  pos_task :: "nat \<Rightarrow> run"
  neg_task :: "nat \<Rightarrow> run"
  temp_task :: "(nat \<Rightarrow> rat) \<Rightarrow> nat \<Rightarrow> run"
  hum_task :: "(nat \<Rightarrow> rat) \<Rightarrow> nat \<Rightarrow> run"
  cyclic_task :: "nat \<Rightarrow> run"
  mirror_handler :: MirrorHandler
  tcx_update_handler :: TCXUpdateHandler

definition main :: startup where
  "main =
     (let s = new_server;
          (bool_data, s) = add_variable ''BooleanData'' (PyBool True) Boolean s;
          (pos_data, s) = add_variable ''PositiveTrendData'' (PyNum (PInt 0)) Double s;
          (neg_data, s) = add_variable ''NegativeTrendData'' (PyNum (PInt 0)) Double s;
          (temp_data, s) = add_variable ''TemperatureData'' (PyNum (PFloat (py_float (37 / 2)))) Double s;
          (hum_data, s) = add_variable ''HumidityData'' (PyNum (PFloat (py_float (301 / 5)))) Double s;
          (cyc_data, s) = add_variable ''CyclicData'' (PyNum (PFloat (py_float 0))) Double s;
          (mirror_orig_data, s) = add_variable ''MirrorDataOriginal'' (PyBool True) Boolean s;
          (mirror_copy_data, s) = add_variable ''MirrorDataCopy'' (PyBool True) Boolean s;
          (latitude_data, s) = add_variable ''GPSLatitude'' (PyStr []) String s;
          (longitude_data, s) = add_variable ''GPSLongitude'' (PyStr []) String s;
          (latitude_longitude_data, s) =
             add_variable ''GPSLatitudeAndLongitude'' (PyStr []) String s;
          s = historize_node_data_change cyc_data PyNone (PyNum (PInt 10000)) s;
          (mirror, s) =
             mirror_start
               \<lparr>orig_data = mirror_orig_data, copy_data = mirror_copy_data, sub = None\<rparr> s
      in \<lparr>srv = s,
          bool_task = (\<lambda>k. toggle_data k bool_data (PInt 10) True),
          pos_task = (\<lambda>k. periodic_data k pos_data (PInt 5) (PInt 0) (PInt 1)),
          neg_task = (\<lambda>k. periodic_data k neg_data (PInt 5) (PInt 0) (PInt (- 2))),
          temp_task = (\<lambda>random k.
             random_data random k temp_data (PInt 10) (PFloat (py_float (37 / 2))) (PInt 15) (PInt 22)),
          hum_task = (\<lambda>random k.
             random_data random k hum_data (PInt 10) (PFloat (py_float (301 / 5))) (PInt 0) (PInt 100)),
          cyclic_task = (\<lambda>k.
             cyclic_data k cyc_data (PInt 200) (PFloat (py_float (1 / 2))) (PInt 0) (PInt (- 100)) (PInt 100)),
          mirror_handler = mirror,
          tcx_update_handler =
            \<lparr>filepath = ''circular-urnieta-aia-donosti-urnieta.tcx'',
             lat_data = latitude_data, long_data = longitude_data,
             lat_long_data = latitude_longitude_data\<rparr>\<rparr>)"

section \<open>Reading results\<close>

text \<open>
  The closed form of the sequence that the triangular wave generator writes as \<^verbatim>\<open>main\<close>
  configures it: from 0 up to 100 in 200 steps, down to -100 in 400 steps and back up to
  0 in 200 steps, with a period of 800 steps.  \<open>rising n\<close> says that the step after the
  \<open>n\<close>-th number goes up.  Both are compared with the loop below, not assumed of it.
\<close>

definition triangle_wave :: "nat \<Rightarrow> rat" where
  "triangle_wave n =
     (let m = n mod 800
      in if m \<le> 200 then of_nat m / 2
         else if m \<le> 600 then (400 - of_nat m) / 2
         else (of_nat m - 800) / 2)"

definition rising :: "nat \<Rightarrow> bool" where
  "rising n = (n mod 800 < 200 \<or> 600 \<le> n mod 800)"

text \<open>
  The history storage of the server drops a change when more than \<^verbatim>\<open>count\<close> are stored, or
  when it is older than \<^verbatim>\<open>period\<close>, and tests either limit for truth first: a limit of
  \<^verbatim>\<open>None\<close> or 0 is no limit.
\<close>

definition unbounded :: "pyval \<Rightarrow> bool" where
  "unbounded limit = (\<not> truthy limit)"

text \<open>
  A float rounded to two decimal places: the float nearest to a whole number of
  hundredths.  These are the floats that \<^verbatim>\<open>round(x, 2)\<close> returns and that print with at
  most two decimals; most hundredths are not floats themselves.
\<close>

definition two_places :: "pyfloat \<Rightarrow> bool" where
  "two_places x = (\<exists>d::int. x = round_double (of_int d / 100))"

declare upto_rec_numeral [simp del]

section \<open>Rounding\<close>

lemma round_half_even_ge: "of_int a \<le> x \<Longrightarrow> a \<le> round_half_even x"
proof -
  assume "of_int a \<le> x"
  then have "a \<le> \<lfloor>x\<rfloor>" by (simp add: le_floor_iff)
  then show ?thesis by (simp add: round_half_even_def Let_def)
qed

lemma round_half_even_le: "x \<le> of_int b \<Longrightarrow> round_half_even x \<le> b"
proof -
  assume x: "x \<le> of_int b"
  then have f: "\<lfloor>x\<rfloor> \<le> b" by (simp add: floor_le_iff)
  show ?thesis
  proof (cases "x - of_int \<lfloor>x\<rfloor> < 1 / 2")
    case True
    with f show ?thesis by (simp add: round_half_even_def Let_def)
  next
    case False
    then have "of_int \<lfloor>x\<rfloor> < x" by linarith
    with x have "of_int \<lfloor>x\<rfloor> < (of_int b :: rat)" by linarith
    then have "\<lfloor>x\<rfloor> < b" by simp
    then show ?thesis by (simp add: round_half_even_def Let_def)
  qed
qed

lemma round_half_even_of_int: "round_half_even (of_int k) = k"
  using round_half_even_ge [of k "of_int k"] round_half_even_le [of "of_int k" k] by simp

lemma round_half_even_eq_0: "(round_half_even x = 0) = (\<bar>x\<bar> \<le> 1 / 2)"
proof
  assume r: "round_half_even x = 0"
  show "\<bar>x\<bar> \<le> 1 / 2"
  proof (rule ccontr)
    assume "\<not> \<bar>x\<bar> \<le> 1 / 2"
    then consider "1 / 2 < x" | "x < - (1 / 2)" by linarith
    then show False
    proof cases
      case 1
      show False
      proof (cases "1 \<le> x")
        case True
        then have "of_int 1 \<le> x" by simp
        from round_half_even_ge [OF this] r show False by simp
      next
        case False
        with 1 have "\<lfloor>x\<rfloor> = 0" by (simp add: floor_eq_iff)
        with 1 r show False by (simp add: round_half_even_def Let_def)
      qed
    next
      case 2
      show False
      proof (cases "x \<le> - 1")
        case True
        then have "x \<le> of_int (- 1)" by simp
        from round_half_even_le [OF this] r show False by simp
      next
        case False
        with 2 have "\<lfloor>x\<rfloor> = - 1" by (simp add: floor_eq_iff)
        with 2 r show False by (simp add: round_half_even_def Let_def)
      qed
    qed
  qed
next
  assume a: "\<bar>x\<bar> \<le> 1 / 2"
  show "round_half_even x = 0"
  proof (cases "0 \<le> x")
    case True
    with a have "\<lfloor>x\<rfloor> = 0" by (simp add: floor_eq_iff)
    with a True show ?thesis by (auto simp add: round_half_even_def Let_def)
  next
    case False
    with a have "\<lfloor>x\<rfloor> = - 1" by (simp add: floor_eq_iff)
    with a False show ?thesis by (auto simp add: round_half_even_def Let_def)
  qed
qed

lemma binade_eqI:
  assumes "- 1022 \<le> e" "e \<le> 1023" "a < 2 powi (e + 1)" "e = - 1022 \<or> 2 powi e \<le> a"
  shows "binade a = Some e"
proof -
  let ?i = "nat (e + 1022)"
  have len: "?i < length [- 1022..1023::int]" using assms by simp
  have nth: "[- 1022..1023::int] ! ?i = e" using assms by simp
  have before: "\<not> a < 2 powi ([- 1022..1023::int] ! j + 1)" if "j < ?i" for j
  proof -
    from that assms have j: "[- 1022..1023::int] ! j = - 1022 + int j" by simp
    from that have "- 1022 + int j + 1 \<le> e" by linarith
    then have "(2::rat) powi (- 1022 + int j + 1) \<le> 2 powi e"
      by (intro power_int_increasing) simp_all
    moreover from that assms have "2 powi e \<le> a" by auto
    ultimately show ?thesis unfolding j by linarith
  qed
  show ?thesis
    unfolding binade_def find_Some_iff
    using len nth before assms(3) by (intro exI [of _ ?i]) simp
qed

lemma binade_None: "2 powi 1024 \<le> a \<Longrightarrow> binade a = None"
proof -
  assume a: "2 powi 1024 \<le> a"
  have "\<not> a < 2 powi (x + 1)" if "x \<in> set [- 1022..1023::int]" for x
  proof -
    from that have "x + 1 \<le> 1024" by simp
    then have "(2::rat) powi (x + 1) \<le> 2 powi 1024"
      by (intro power_int_increasing) simp_all
    with a show ?thesis by linarith
  qed
  then show ?thesis unfolding binade_def find_None_iff by blast
qed

lemma binade_SomeD:
  assumes "binade a = Some e"
  shows "- 1022 \<le> e \<and> e \<le> 1023 \<and> a < 2 powi (e + 1) \<and> (e = - 1022 \<or> 2 powi e \<le> a)"
proof -
  from assms obtain i where i: "i < length [- 1022..1023::int]"
    and P: "a < 2 powi ([- 1022..1023::int] ! i + 1)"
    and e: "e = [- 1022..1023::int] ! i"
    and min: "\<forall>j<i. \<not> a < 2 powi ([- 1022..1023::int] ! j + 1)"
    unfolding binade_def find_Some_iff by blast
  from i have ei: "e = - 1022 + int i" unfolding e by simp
  have "e = - 1022 \<or> 2 powi e \<le> a"
  proof (cases i)
    case 0
    with ei show ?thesis by simp
  next
    case (Suc j)
    with i have "[- 1022..1023::int] ! j = - 1022 + int j" by simp
    moreover from min Suc have "\<not> a < 2 powi ([- 1022..1023::int] ! j + 1)" by simp
    ultimately have "\<not> a < 2 powi (- 1022 + int j + 1)" by simp
    moreover have "- 1022 + int j + 1 = e" using ei Suc by simp
    ultimately show ?thesis by simp
  qed
  with i ei P e show ?thesis by simp
qed

lemma binade_ex: "a < 2 powi 1024 \<Longrightarrow> \<exists>e. binade a = Some e"
proof -
  assume "a < 2 powi 1024"
  then have "\<exists>x. x \<in> set [- 1022..1023::int] \<and> a < 2 powi (x + 1)"
    by (intro exI [of _ 1023]) simp
  then have "binade a \<noteq> None" unfolding binade_def find_None_iff by blast
  then show ?thesis by blast
qed

lemma powi_less_cancel: "(2::rat) powi a < 2 powi b \<Longrightarrow> a < b"
proof (rule ccontr)
  assume lt: "(2::rat) powi a < 2 powi b" and "\<not> a < b"
  then have "b \<le> a" by simp
  then have "(2::rat) powi b \<le> 2 powi a" by (intro power_int_increasing) simp_all
  with lt show False by simp
qed

lemma round_double_zero_iff: "(round_double q = Finite 0) = (\<bar>q\<bar> \<le> 2 powi (- 1075))"
proof
  assume small: "\<bar>q\<bar> \<le> 2 powi (- 1075)"
  have "(2::rat) powi (- 1075) < 2 powi (- 1022 + 1)"
    by (intro power_int_strict_increasing) simp_all
  with small have "\<bar>q\<bar> < 2 powi (- 1022 + 1)" by linarith
  then have b: "binade \<bar>q\<bar> = Some (- 1022)"
    by (intro binade_eqI) simp_all
  have "(2::rat) powi (- 1075) = 2 powi (- 1074) * (1 / 2)"
    using power_int_add [of "2::rat" "- 1074" "- 1"] by simp
  with small have "\<bar>q\<bar> / 2 powi (- 1074) \<le> 1 / 2"
    by (simp add: field_simps)
  then have "\<bar>q / 2 powi (- 1074)\<bar> \<le> 1 / 2" by simp
  then have "round_half_even (q / 2 powi (- 1074)) = 0"
    by (simp only: round_half_even_eq_0)
  with b show "round_double q = Finite 0"
    by (simp add: round_double_def Let_def)
next
  assume z: "round_double q = Finite 0"
  show "\<bar>q\<bar> \<le> 2 powi (- 1075)"
  proof (rule ccontr)
    assume big: "\<not> \<bar>q\<bar> \<le> 2 powi (- 1075)"
    from z obtain e where b: "binade \<bar>q\<bar> = Some e"
      by (cases "binade \<bar>q\<bar>") (auto simp add: round_double_def split: if_splits)
    from binade_SomeD [OF b] have e: "- 1022 \<le> e" "e = - 1022 \<or> 2 powi e \<le> \<bar>q\<bar>"
      by simp_all
    let ?ulp = "(2::rat) powi (e - 52)"
    have pos: "0 < ?ulp" by simp
    have "1 / 2 < \<bar>q\<bar> / ?ulp"
    proof (cases "e = - 1022")
      case True
      have "(2::rat) powi (- 1075) = 2 powi (- 1074) * (1 / 2)"
        using power_int_add [of "2::rat" "- 1074" "- 1"] by simp
      with big True show ?thesis by (simp add: field_simps)
    next
      case False
      with e have "2 powi e \<le> \<bar>q\<bar>" by simp
      moreover have "(2::rat) powi e = 2 powi (e - 52) * 2 powi 52"
        using power_int_add [of "2::rat" "e - 52" 52] by simp
      ultimately have "2 powi 52 \<le> \<bar>q\<bar> / ?ulp"
        using pos by (simp add: field_simps)
      moreover have "(1 / 2 :: rat) < 2 powi 52" by simp
      ultimately show ?thesis by linarith
    qed
    then have "\<not> \<bar>q / ?ulp\<bar> \<le> 1 / 2" by simp
    then have nz: "round_half_even (q / ?ulp) \<noteq> 0"
      by (simp only: round_half_even_eq_0) simp
    from z b have "of_int (round_half_even (q / ?ulp)) * ?ulp = 0"
      by (simp add: round_double_def Let_def split: if_splits)
    with nz show False by simp
  qed
qed

lemma round_double_exact:
  assumes q: "q = of_int m * 2 powi j" and j: "- 1074 \<le> j" and m: "\<bar>m\<bar> < 2 ^ 53"
    and fin: "\<bar>q\<bar> < 2 powi 1024"
  shows "round_double q = Finite q"
proof -
  from binade_ex [OF fin] obtain e where b: "binade \<bar>q\<bar> = Some e" by blast
  from binade_SomeD [OF b] have e: "- 1022 \<le> e" "e = - 1022 \<or> 2 powi e \<le> \<bar>q\<bar>"
    by simp_all
  have ej: "e - 52 \<le> j"
  proof (cases "e = - 1022")
    case True
    with j show ?thesis by simp
  next
    case False
    with e have "2 powi e \<le> \<bar>q\<bar>" by simp
    also have "\<bar>q\<bar> = of_int \<bar>m\<bar> * 2 powi j"
      unfolding q by (simp add: abs_mult)
    also have "\<dots> < 2 ^ 53 * 2 powi j"
    proof -
      from m have "(of_int \<bar>m\<bar> :: rat) < of_int (2 ^ 53)" by (simp only: of_int_less_iff)
      then show ?thesis by simp
    qed
    also have "\<dots> = 2 powi (j + 53)"
      using power_int_add [of "2::rat" j 53] by (simp add: mult.commute)
    finally have "e < j + 53" by (rule powi_less_cancel)
    then show ?thesis by simp
  qed
  let ?ulp = "(2::rat) powi (e - 52)"
  have "(2::rat) powi j = 2 powi (e - 52) * 2 powi (j - (e - 52))"
    using power_int_add [of "2::rat" "e - 52" "j - (e - 52)"] by simp
  also have "(2::rat) powi (j - (e - 52)) = 2 ^ nat (j - (e - 52))"
    using ej by (simp add: power_int_nonneg_exp)
  finally have pj: "(2::rat) powi j = ?ulp * 2 ^ nat (j - (e - 52))" .
  have "q / ?ulp = of_int (m * 2 ^ nat (j - (e - 52)))"
    unfolding q pj by simp
  then have "round_half_even (q / ?ulp) = m * 2 ^ nat (j - (e - 52))"
    by (simp only: round_half_even_of_int)
  then have "of_int (round_half_even (q / ?ulp)) * ?ulp = q"
    unfolding q pj by simp
  with b fin show ?thesis
    by (simp add: round_double_def Let_def)
qed

lemma round_double_of_int: "\<bar>i\<bar> < 2 ^ 53 \<Longrightarrow> round_double (of_int i) = Finite (of_int i)"
proof -
  assume i: "\<bar>i\<bar> < 2 ^ 53"
  then have "(of_int \<bar>i\<bar> :: rat) < of_int (2 ^ 53)" by (simp only: of_int_less_iff)
  then have "\<bar>of_int i :: rat\<bar> < 2 ^ 53" by simp
  also have "(2 ^ 53 :: rat) < 2 powi 1024" by simp
  finally have "\<bar>of_int i :: rat\<bar> < 2 powi 1024" .
  with i show ?thesis
    by (intro round_double_exact [where m = i and j = 0]) simp_all
qed

lemma round_double_half: "\<bar>k\<bar> < 2 ^ 53 \<Longrightarrow> round_double (of_int k / 2) = Finite (of_int k / 2)"
proof -
  assume k: "\<bar>k\<bar> < 2 ^ 53"
  then have "(of_int \<bar>k\<bar> :: rat) < of_int (2 ^ 53)" by (simp only: of_int_less_iff)
  then have "\<bar>of_int k :: rat\<bar> < 2 ^ 53" by simp
  then have "\<bar>of_int k / 2 :: rat\<bar> < 2 ^ 53" by simp
  also have "(2 ^ 53 :: rat) < 2 powi 1024" by simp
  finally have "\<bar>of_int k / 2 :: rat\<bar> < 2 powi 1024" .
  with k show ?thesis
    by (intro round_double_exact [where m = k and j = "- 1"]) (simp_all add: power_int_minus)
qed

lemma round_double_between:
  assumes lo: "of_int a \<le> q" and hi: "q \<le> of_int b" and a: "\<bar>a\<bar> \<le> 2 ^ 52" and b: "\<bar>b\<bar> \<le> 2 ^ 52"
  shows "\<exists>r. round_double q = Finite r \<and> of_int a \<le> r \<and> r \<le> of_int b"
proof -
  from a have "(of_int \<bar>a\<bar> :: rat) \<le> of_int (2 ^ 52)" by (simp only: of_int_le_iff)
  then have a': "\<bar>of_int a :: rat\<bar> \<le> 2 ^ 52" by simp
  from b have "(of_int \<bar>b\<bar> :: rat) \<le> of_int (2 ^ 52)" by (simp only: of_int_le_iff)
  then have b': "\<bar>of_int b :: rat\<bar> \<le> 2 ^ 52" by simp
  from lo hi a' b' have q52: "\<bar>q\<bar> \<le> 2 ^ 52" by linarith
  have "(2 ^ 52 :: rat) < 2 powi 53" by simp
  with q52 have q53: "\<bar>q\<bar> < 2 powi 53" by linarith
  have "(2::rat) powi 53 < 2 powi 1024" by simp
  with q53 have "\<bar>q\<bar> < 2 powi 1024" by linarith
  from binade_ex [OF this] obtain e where be: "binade \<bar>q\<bar> = Some e" by blast
  from binade_SomeD [OF be] have e: "- 1022 \<le> e" "e = - 1022 \<or> 2 powi e \<le> \<bar>q\<bar>"
    by simp_all
  have e52: "e \<le> 52"
  proof (cases "e = - 1022")
    case True
    then show ?thesis by simp
  next
    case False
    with e have "2 powi e \<le> \<bar>q\<bar>" by simp
    with q53 have "(2::rat) powi e < 2 powi 53" by linarith
    then have "e < 53" by (rule powi_less_cancel)
    then show ?thesis by simp
  qed
  let ?ulp = "(2::rat) powi (e - 52)"
  let ?n = "nat (52 - e)"
  have "(2::rat) powi (e - 52) * 2 powi (52 - e) = 2 powi 0"
    using power_int_add [of "2::rat" "e - 52" "52 - e"] by simp
  moreover have "(2::rat) powi (52 - e) = 2 ^ ?n"
    using e52 by (simp add: power_int_nonneg_exp)
  ultimately have ulp: "?ulp * 2 ^ ?n = 1" by simp
  then have div: "x / ?ulp = x * 2 ^ ?n" for x :: rat
    by (simp add: field_simps)
  let ?r = "of_int (round_half_even (q / ?ulp)) * ?ulp"
  have "of_int (a * 2 ^ ?n) \<le> q / ?ulp"
    unfolding div using lo by simp
  then have "a * 2 ^ ?n \<le> round_half_even (q / ?ulp)" by (rule round_half_even_ge)
  then have "(of_int (a * 2 ^ ?n) :: rat) \<le> of_int (round_half_even (q / ?ulp))"
    by (simp only: of_int_le_iff)
  then have "of_int a * 2 ^ ?n * ?ulp \<le> ?r"
    by (intro mult_right_mono) simp_all
  moreover have "of_int a * 2 ^ ?n * ?ulp = of_int a * (?ulp * 2 ^ ?n)"
    by (simp only: ac_simps)
  ultimately have rlo: "of_int a \<le> ?r" by (simp only: ulp mult_1_right)
  have "q / ?ulp \<le> of_int (b * 2 ^ ?n)"
    unfolding div using hi by simp
  then have "round_half_even (q / ?ulp) \<le> b * 2 ^ ?n" by (rule round_half_even_le)
  then have "(of_int (round_half_even (q / ?ulp)) :: rat) \<le> of_int (b * 2 ^ ?n)"
    by (simp only: of_int_le_iff)
  then have "?r \<le> of_int b * 2 ^ ?n * ?ulp"
    by (intro mult_right_mono) simp_all
  moreover have "of_int b * 2 ^ ?n * ?ulp = of_int b * (?ulp * 2 ^ ?n)"
    by (simp only: ac_simps)
  ultimately have rhi: "?r \<le> of_int b" by (simp only: ulp mult_1_right)
  from rlo rhi a' b' have "\<bar>?r\<bar> \<le> 2 ^ 52" by linarith
  moreover have "(2 ^ 52 :: rat) < 2 powi 1024" by simp
  ultimately have "\<bar>?r\<bar> < 2 powi 1024" by linarith
  with be have "round_double q = Finite ?r"
    by (simp add: round_double_def Let_def)
  with rlo rhi show ?thesis by blast
qed

lemma round_double_overflow:
  "2 powi 1024 \<le> \<bar>q\<bar> \<Longrightarrow> round_double q = (if 0 < q then PosInf else NegInf)"
  by (simp add: round_double_def binade_None)

lemma round_double_finite:
  assumes "\<bar>q\<bar> < 2 powi 1023"
  shows "\<exists>r. round_double q = Finite r"
proof -
  have "(2::rat) powi 1023 < 2 powi 1024" by simp
  with assms have "\<bar>q\<bar> < 2 powi 1024" by linarith
  from binade_ex [OF this] obtain e where be: "binade \<bar>q\<bar> = Some e" by blast
  from binade_SomeD [OF be] have e: "- 1022 \<le> e" "e = - 1022 \<or> 2 powi e \<le> \<bar>q\<bar>"
    and up: "\<bar>q\<bar> < 2 powi (e + 1)"
    by simp_all
  have e1022: "e \<le> 1022"
  proof (cases "e = - 1022")
    case True
    then show ?thesis by simp
  next
    case False
    with e have "2 powi e \<le> \<bar>q\<bar>" by simp
    with assms have "(2::rat) powi e < 2 powi 1023" by linarith
    then have "e < 1023" by (rule powi_less_cancel)
    then show ?thesis by simp
  qed
  let ?ulp = "(2::rat) powi (e - 52)"
  have pos: "0 < ?ulp" by simp
  have ee: "e + 1 = 53 + (e - 52)" by linarith
  have "(2::rat) powi (e + 1) = 2 powi (53 + (e - 52))" by (simp only: ee)
  also have "\<dots> = 2 powi 53 * ?ulp" by (rule power_int_add) simp
  finally have split: "(2::rat) powi (e + 1) = 2 ^ 53 * ?ulp" by simp
  with up pos have "\<bar>q\<bar> / ?ulp < 2 ^ 53" by (simp add: field_simps)
  then have x: "\<bar>q / ?ulp\<bar> < 2 ^ 53" by simp
  define y where "y = q / ?ulp"
  from x have "\<bar>y\<bar> < 2 ^ 53" unfolding y_def .
  then have "y \<le> 2 ^ 53" "- (2 ^ 53) \<le> y" by linarith+
  then have "y \<le> of_int (2 ^ 53)" "of_int (- (2 ^ 53)) \<le> y" by simp_all
  then have yb: "q / ?ulp \<le> of_int (2 ^ 53)" "of_int (- (2 ^ 53)) \<le> q / ?ulp"
    unfolding y_def .
  have "round_half_even (q / ?ulp) \<le> 2 ^ 53"
    using yb(1) by (rule round_half_even_le)
  moreover have "- (2 ^ 53) \<le> round_half_even (q / ?ulp)"
    using yb(2) by (rule round_half_even_ge)
  ultimately have "round_half_even (q / ?ulp) \<le> 2 ^ 53" "- (2 ^ 53) \<le> round_half_even (q / ?ulp)"
    by simp_all
  then have "\<bar>round_half_even (q / ?ulp)\<bar> \<le> 2 ^ 53" by simp
  then have "(of_int \<bar>round_half_even (q / ?ulp)\<bar> :: rat) \<le> of_int (2 ^ 53)"
    by (simp only: of_int_le_iff)
  then have "\<bar>of_int (round_half_even (q / ?ulp)) :: rat\<bar> \<le> 2 ^ 53" by simp
  then have "\<bar>of_int (round_half_even (q / ?ulp)) * ?ulp\<bar> \<le> 2 ^ 53 * ?ulp"
    using pos by (simp add: abs_mult mult_right_mono)
  also have "\<dots> = 2 powi (e + 1)" by (simp only: split)
  also have "\<dots> \<le> 2 powi 1023"
    using e1022 by (intro power_int_increasing) simp_all
  also have "\<dots> < 2 powi 1024" by simp
  finally show ?thesis
    using be by (simp add: round_double_def Let_def)
qed

section \<open>Conversions and traces\<close>

lemma float_of_int_small: "\<bar>i\<bar> < 2 ^ 53 \<Longrightarrow> float_of_int i = Inr (Finite (of_int i))"
  by (simp add: float_of_int_def round_double_of_int)

lemma py_float_half: "\<bar>k\<bar> < 2 ^ 53 \<Longrightarrow> py_float (of_int k / 2) = Finite (of_int k / 2)"
  by (simp add: py_float_def round_double_half)

lemma py_float_literals:
  "py_float 0 = Finite 0" "py_float (1 / 2) = Finite (1 / 2)" "py_float (37 / 2) = Finite (37 / 2)"
  using py_float_half [of 0] py_float_half [of 1] py_float_half [of 37] by simp_all

lemma fst_emit: "fst (emit es r) = es @ fst r"
  by (simp add: emit_def)

lemma snd_emit: "snd (emit es r) = snd r"
  by (simp add: emit_def)

lemma writes_append: "writes (xs @ ys) = writes xs @ writes ys"
  by (induction xs rule: writes.induct) simp_all

section \<open>What startup registers\<close>

lemmas main_defs =
  main_def new_server_def add_variable_def historize_node_data_change_def mirror_start_def

lemma main_srv:
  "srv main =
     \<lparr>variables =
        [(''BooleanData'', PyBool True, Boolean),
         (''PositiveTrendData'', PyNum (PInt 0), Double),
         (''NegativeTrendData'', PyNum (PInt 0), Double),
         (''TemperatureData'', PyNum (PFloat (Finite (37 / 2))), Double),
         (''HumidityData'', PyNum (PFloat (py_float (301 / 5))), Double),
         (''CyclicData'', PyNum (PFloat (Finite 0)), Double),
         (''MirrorDataOriginal'', PyBool True, Boolean),
         (''MirrorDataCopy'', PyBool True, Boolean),
         (''GPSLatitude'', PyStr [], String),
         (''GPSLongitude'', PyStr [], String),
         (''GPSLatitudeAndLongitude'', PyStr [], String)],
      historized = [(5, PyNone, PyNum (PInt 10000))],
      writable = [6],
      monitored = [(500, 6)]\<rparr>"
  by (simp add: main_defs py_float_literals)

lemma main_tasks:
  "bool_task main = (\<lambda>k. toggle_data k 0 (PInt 10) True)"
  "pos_task main = (\<lambda>k. periodic_data k 1 (PInt 5) (PInt 0) (PInt 1))"
  "neg_task main = (\<lambda>k. periodic_data k 2 (PInt 5) (PInt 0) (PInt (- 2)))"
  "temp_task main =
     (\<lambda>random k. random_data random k 3 (PInt 10) (PFloat (Finite (37 / 2))) (PInt 15) (PInt 22))"
  "hum_task main =
     (\<lambda>random k. random_data random k 4 (PInt 10) (PFloat (py_float (301 / 5))) (PInt 0) (PInt 100))"
  "cyclic_task main =
     (\<lambda>k. cyclic_data k 5 (PInt 200) (PFloat (Finite (1 / 2))) (PInt 0) (PInt (- 100)) (PInt 100))"
  by (simp_all add: main_defs eval_nat_numeral py_float_literals)

lemma main_handlers:
  "mirror_handler main = \<lparr>orig_data = 6, copy_data = 7, sub = Some 500\<rparr>"
  "tcx_update_handler main =
     \<lparr>filepath = ''circular-urnieta-aia-donosti-urnieta.tcx'',
      lat_data = 8, long_data = 9, lat_long_data = 10\<rparr>"
  by (simp_all add: main_defs eval_nat_numeral)

section \<open>The toggle generator\<close>

lemma upt_Suc_shift: "[0..<Suc k] = 0 # map Suc [0..<k]"
  by (simp add: upt_conv_Cons map_Suc_upt del: upt_Suc)

lemma writes_toggle_loop:
  "writes (toggle_loop k data refresh v) = map (\<lambda>n. (data, PyBool (v \<noteq> odd n))) [0..<k]"
proof (induction k arbitrary: v)
  case 0
  show ?case by simp
next
  case (Suc k)
  show ?case
    unfolding upt_Suc_shift by (auto simp add: Suc comp_def)
qed

text \<open>
  Claim C2.  Started with the initial value \<open>init\<close>, the toggle generator writes, in its
  first \<open>k\<close> iterations and for every \<open>k\<close>, exactly \<open>k\<close> values to its node, and
  the \<open>n\<close>-th of them is \<open>init\<close> XOR (\<open>n mod 2 = 1\<close>): the sequence
  \<open>init\<close>, \<open>\<not> init\<close>, \<open>init\<close>, ... without end.
\<close>

theorem toggle_data_sequence:
  "writes (toggle_data k data refresh init) =
     map (\<lambda>n. (data, PyBool (init \<noteq> (n mod 2 = 1)))) [0..<k]"
  by (simp add: toggle_data_def writes_toggle_loop odd_iff_mod_2_eq_one)

theorem toggle_data_sequence_witness:
  "writes (toggle_data 3 0 (PInt 10) True) = [(0, PyBool True), (0, PyBool False), (0, PyBool True)]"
  using toggle_data_sequence [of 3 0 "PInt 10" True]
  by (simp add: upt_rec)

section \<open>The linear ramp generator\<close>

lemma periodic_loop_int:
  "periodic_loop k data refresh (PInt a) (PInt d) =
     (concat (map (\<lambda>n. [WriteValue data (PyNum (PInt (a + int n * d))), Sleep refresh]) [0..<k]),
      None)"
proof (induction k arbitrary: a)
  case 0
  show ?case by simp
next
  case (Suc k)
  show ?case
    unfolding upt_Suc_shift by (simp add: Suc comp_def algebra_simps emit_def)
qed

lemma writes_concat_pairs:
  "writes (concat (map (\<lambda>n. [WriteValue data (f n), Sleep refresh]) xs)) = map (\<lambda>n. (data, f n)) xs"
  by (induction xs) simp_all

text \<open>
  Claim C6.  The ramp that \<^verbatim>\<open>main\<close> starts with \<^verbatim>\<open>increment=-2\<close> and the default
  \<^verbatim>\<open>init=0\<close> never raises and writes, as its \<open>n\<close>-th value, the integer \<open>- 2 * n\<close>: the
  sequence 0, -2, -4, -6, ...  No value is clamped, and the sequence has no lower bound:
  below every integer \<open>b\<close> some written value lies.
\<close>

theorem neg_task_sequence:
  "snd (neg_task main k) = None \<and>
   writes (fst (neg_task main k)) = map (\<lambda>n. (2, PyNum (PInt (- 2 * int n)))) [0..<k] \<and>
   (\<forall>b. \<exists>k n. (2, PyNum (PInt (- 2 * int n))) \<in> set (writes (fst (neg_task main k))) \<and>
      - 2 * int n < b)"
proof (intro conjI)
  show "snd (neg_task main k) = None"
    by (simp add: main_tasks periodic_data_def periodic_loop_int)
  show eq: "writes (fst (neg_task main k)) = map (\<lambda>n. (2, PyNum (PInt (- 2 * int n)))) [0..<k]" for k
    by (simp add: main_tasks periodic_data_def periodic_loop_int writes_concat_pairs)
  show "\<forall>b. \<exists>k n. (2, PyNum (PInt (- 2 * int n))) \<in> set (writes (fst (neg_task main k))) \<and>
      - 2 * int n < b"
  proof
    fix b :: int
    let ?n = "nat \<bar>b\<bar> + 1"
    have "(2, PyNum (PInt (- 2 * int ?n))) \<in> set (writes (fst (neg_task main (Suc ?n))))"
      unfolding eq set_map by (rule image_eqI [where x = ?n]) simp_all
    moreover have "- 2 * int ?n < b" by simp
    ultimately show "\<exists>k n. (2, PyNum (PInt (- 2 * int n))) \<in> set (writes (fst (neg_task main k))) \<and>
        - 2 * int n < b"
      by blast
  qed
qed

theorem neg_task_sequence_witness:
  "snd (neg_task main 4) = None \<and>
   writes (fst (neg_task main 4)) =
     [(2, PyNum (PInt 0)), (2, PyNum (PInt (- 2))), (2, PyNum (PInt (- 4))), (2, PyNum (PInt (- 6)))]"
  using neg_task_sequence [of 4] by (simp add: upt_rec)

section \<open>Every generator writes its own node only\<close>

lemma nodes_toggle_loop: "fst ` set (writes (toggle_loop k data refresh v)) \<subseteq> {data}"
  by (induction k arbitrary: v) auto

lemma nodes_periodic_loop:
  "fst ` set (writes (fst (periodic_loop k data refresh v increment))) \<subseteq> {data}"
proof (induction k arbitrary: v)
  case 0
  show ?case by simp
next
  case (Suc k)
  show ?case
  proof (cases "py_add v increment")
    case (Inl e)
    then show ?thesis by (simp add: emit_def)
  next
    case (Inr v')
    with Suc [of v'] show ?thesis by (simp add: emit_def)
  qed
qed

lemma nodes_random_loop:
  "fst ` set (writes (fst (random_loop random i k data refresh v minv maxv))) \<subseteq> {data}"
proof (induction k arbitrary: v i)
  case 0
  show ?case by simp
next
  case (Suc k)
  show ?case
  proof (cases "draw minv maxv (Finite (random i))")
    case (Inl e)
    then show ?thesis by (simp add: emit_def)
  next
    case (Inr v')
    with Suc [of "Suc i" v'] show ?thesis by (simp add: emit_def)
  qed
qed

lemma nodes_cyclic_loop:
  "fst ` set (writes (fst (cyclic_loop k data refresh step minv maxv v up))) \<subseteq> {data}"
proof (induction k arbitrary: v up)
  case 0
  show ?case by simp
next
  case (Suc k)
  define up' where "up' = (if py_le v minv then True else if py_ge v maxv then False else up)"
  show ?case
  proof (cases "ua_Double v")
    case (Inl e)
    then show ?thesis by simp
  next
    case d: (Inr d)
    show ?thesis
    proof (cases "if up' then py_add v step else py_sub v step")
      case (Inl e)
      with d show ?thesis by (simp add: emit_def Let_def up'_def)
    next
      case (Inr v')
      with d Suc [of v' up'] show ?thesis by (simp add: emit_def Let_def up'_def)
    qed
  qed
qed

text \<open>
  Claim C7.  In every iteration of its loop each of the four generators (toggle, linear
  ramp, bounded random, bounded triangular) writes to the node it was given as \<open>data\<close>
  and to no other node.
\<close>

theorem generators_write_own_node:
  "fst ` set (writes (toggle_data k data refresh b)) \<subseteq> {data} \<and>
   fst ` set (writes (fst (periodic_data k data refresh init increment))) \<subseteq> {data} \<and>
   fst ` set (writes (fst (random_data random k data refresh init minv maxv))) \<subseteq> {data} \<and>
   fst ` set (writes (fst (cyclic_data k data cycle_time step init minv maxv))) \<subseteq> {data}"
proof (intro conjI)
  show "fst ` set (writes (toggle_data k data refresh b)) \<subseteq> {data}"
    unfolding toggle_data_def Let_def by (rule nodes_toggle_loop)
  show "fst ` set (writes (fst (periodic_data k data refresh init increment))) \<subseteq> {data}"
    unfolding periodic_data_def Let_def by (rule nodes_periodic_loop)
  show "fst ` set (writes (fst (random_data random k data refresh init minv maxv))) \<subseteq> {data}"
    unfolding random_data_def Let_def by (rule nodes_random_loop)
  show "fst ` set (writes (fst (cyclic_data k data cycle_time step init minv maxv))) \<subseteq> {data}"
    using nodes_cyclic_loop
    by (simp add: cyclic_data_def Let_def split: sum.splits)
qed

section \<open>The triangular wave generator\<close>

lemma round_double_numeral:
  "(numeral n :: int) < 2 ^ 53 \<Longrightarrow> round_double (numeral n) = Finite (numeral n)"
  using round_double_of_int [of "numeral n"] by simp

lemma round_double_0: "round_double 0 = Finite 0"
  using round_double_of_int [of 0] by simp

lemma round_double_one_half: "round_double (1 / 2) = Finite (1 / 2)"
  using round_double_half [of 1] by simp

lemma float_of_int_numeral:
  "(numeral n :: int) < 2 ^ 53 \<Longrightarrow> float_of_int (numeral n) = Inr (Finite (numeral n))"
  using float_of_int_small [of "numeral n"] by simp

lemma float_of_int_0: "float_of_int 0 = Inr (Finite 0)"
  using float_of_int_small [of 0] by simp

lemma cyclic_task_main:
  "cyclic_task main k =
     cyclic_loop k 5 (PFloat (Finite (1 / 2))) (PFloat (Finite (1 / 2))) (PInt (- 100)) (PInt 100)
       (PInt 0) True"
  by (simp add: main_tasks cyclic_data_def float_of_int_numeral round_double_numeral
      round_double_one_half)

lemma triangle_wave_Suc:
  "triangle_wave (Suc n) = triangle_wave n + (if rising n then 1 / 2 else - (1 / 2))"
proof -
  have "n mod 800 < 800" by simp
  then show ?thesis
    by (auto simp add: triangle_wave_def rising_def Let_def mod_Suc field_simps)
qed

lemma triangle_wave_ge_100: "(100 \<le> triangle_wave n) = (n mod 800 = 200)"
proof -
  have "n mod 800 < 800" by simp
  then show ?thesis
    by (auto simp add: triangle_wave_def Let_def field_simps)
qed

lemma triangle_wave_le_100: "(triangle_wave n \<le> - 100) = (n mod 800 = 600)"
proof -
  have "n mod 800 < 800" by simp
  then show ?thesis
    by (auto simp add: triangle_wave_def Let_def field_simps)
qed

lemma triangle_wave_bounds: "- 100 \<le> triangle_wave n \<and> triangle_wave n \<le> 100"
proof -
  have "n mod 800 < 800" by simp
  then show ?thesis
    by (auto simp add: triangle_wave_def Let_def field_simps)
qed

lemma rising_Suc: "rising n = (Suc n mod 800 \<le> 200 \<or> 600 < Suc n mod 800)"
proof -
  have "n mod 800 < 800" by simp
  then show ?thesis
    by (auto simp add: rising_def mod_Suc)
qed

lemma triangle_wave_half: "\<exists>k. triangle_wave n = of_int k / 2 \<and> \<bar>k\<bar> < 2 ^ 53"
proof -
  let ?m = "n mod 800"
  have m: "?m < 800" by simp
  consider "?m \<le> 200" | "200 < ?m \<and> ?m \<le> 600" | "600 < ?m" by linarith
  then show ?thesis
  proof cases
    case 1
    then have "triangle_wave n = of_int (int ?m) / 2" by (simp add: triangle_wave_def)
    moreover have "\<bar>int ?m\<bar> < 2 ^ 53" using m by simp
    ultimately show ?thesis by blast
  next
    case 2
    then have "triangle_wave n = of_int (400 - int ?m) / 2" by (simp add: triangle_wave_def)
    moreover have "\<bar>400 - int ?m\<bar> < 2 ^ 53" using m by simp
    ultimately show ?thesis by blast
  next
    case 3
    then have "triangle_wave n = of_int (int ?m - 800) / 2" by (simp add: triangle_wave_def)
    moreover have "\<bar>int ?m - 800\<bar> < 2 ^ 53" using m by simp
    ultimately show ?thesis by blast
  qed
qed

lemma round_double_triangle_wave: "round_double (triangle_wave n) = Finite (triangle_wave n)"
proof -
  from triangle_wave_half [of n] obtain k where w: "triangle_wave n = of_int k / 2"
    and k: "\<bar>k\<bar> < 2 ^ 53"
    by blast
  show ?thesis unfolding w by (rule round_double_half [OF k])
qed

lemma cyclic_loop_wave:
  assumes "up = (n mod 800 \<le> 200 \<or> 600 < n mod 800)"
  shows "cyclic_loop k data refresh (PFloat (Finite (1 / 2))) (PInt (- 100)) (PInt 100)
           (PFloat (Finite (triangle_wave n))) up =
         (concat (map (\<lambda>i. [WriteValue data (PyNum (PFloat (Finite (triangle_wave (n + i))))),
                              Sleep refresh]) [0..<k]), None)"
  using assms
proof (induction k arbitrary: n up)
  case 0
  show ?case by simp
next
  case (Suc k)
  let ?v = "PFloat (Finite (triangle_wave n))"
  define up1 where "up1 = (if py_ge ?v (PInt 100) then False else up)"
  define up2 where "up2 = (if py_le ?v (PInt (- 100)) then True else up1)"
  have ge: "py_ge ?v (PInt 100) = (n mod 800 = 200)"
    using triangle_wave_ge_100 [of n] by (simp add: py_ge_def)
  have le: "py_le ?v (PInt (- 100)) = (n mod 800 = 600)"
    using triangle_wave_le_100 [of n] by (simp add: py_le_def)
  have up2: "up2 = rising n"
    unfolding up2_def up1_def ge le Suc.prems rising_def by auto
  have plus: "round_double (triangle_wave n + 1 / 2) = Finite (triangle_wave (Suc n))" if "rising n"
    using round_double_triangle_wave [of "Suc n"] that by (simp add: triangle_wave_Suc)
  have minus: "round_double (triangle_wave n - 1 / 2) = Finite (triangle_wave (Suc n))"
    if "\<not> rising n"
    using round_double_triangle_wave [of "Suc n"] that by (simp add: triangle_wave_Suc)
  have next_v: "(if up2 then py_add ?v (PFloat (Finite (1 / 2)))
      else py_sub ?v (PFloat (Finite (1 / 2)))) = Inr (PFloat (Finite (triangle_wave (Suc n))))"
    by (simp add: up2 float_op_def float_sub_def plus minus)
  have step: "cyclic_loop (Suc k) data refresh (PFloat (Finite (1 / 2))) (PInt (- 100)) (PInt 100) ?v up =
      emit [WriteValue data (PyNum ?v), Sleep refresh]
        (cyclic_loop k data refresh (PFloat (Finite (1 / 2))) (PInt (- 100)) (PInt 100)
           (PFloat (Finite (triangle_wave (Suc n)))) up2)"
  proof -
    have "cyclic_loop (Suc k) data refresh (PFloat (Finite (1 / 2))) (PInt (- 100)) (PInt 100) ?v up =
        emit [WriteValue data (PyNum ?v), Sleep refresh]
          (case (if up2 then py_add ?v (PFloat (Finite (1 / 2)))
                 else py_sub ?v (PFloat (Finite (1 / 2)))) of
             Inl e \<Rightarrow> ([], Some e)
           | Inr x \<Rightarrow> cyclic_loop k data refresh (PFloat (Finite (1 / 2))) (PInt (- 100))
               (PInt 100) x up2)"
      unfolding up2_def up1_def
      by (simp only: cyclic_loop.simps Let_def ua_Double_def as_float.simps sum.case)
    then show ?thesis by (simp only: next_v sum.case)
  qed
  have rest: "cyclic_loop k data refresh (PFloat (Finite (1 / 2))) (PInt (- 100)) (PInt 100)
      (PFloat (Finite (triangle_wave (Suc n)))) up2 =
      (concat (map (\<lambda>i. [WriteValue data (PyNum (PFloat (Finite (triangle_wave (Suc n + i))))),
                           Sleep refresh]) [0..<k]), None)"
    by (rule Suc.IH) (simp add: up2 rising_Suc)
  show ?case
    unfolding step rest upt_Suc_shift
    by (simp add: emit_def comp_def)
qed

lemma cyclic_loop_main:
  "cyclic_loop k data refresh (PFloat (Finite (1 / 2))) (PInt (- 100)) (PInt 100) (PInt 0) True =
     (concat (map (\<lambda>i. [WriteValue data (PyNum (PFloat (Finite (triangle_wave i)))), Sleep refresh])
        [0..<k]), None)"
proof (cases k)
  case 0
  then show ?thesis by simp
next
  case (Suc j)
  have w1: "triangle_wave (Suc 0) = 1 / 2" "triangle_wave 0 = 0"
    by (simp_all add: triangle_wave_def)
  have first: "cyclic_loop (Suc j) data refresh (PFloat (Finite (1 / 2))) (PInt (- 100)) (PInt 100)
      (PInt 0) True =
      emit [WriteValue data (PyNum (PFloat (Finite 0))), Sleep refresh]
        (cyclic_loop j data refresh (PFloat (Finite (1 / 2))) (PInt (- 100)) (PInt 100)
           (PFloat (Finite (triangle_wave (Suc 0)))) True)"
    by (simp add: ua_Double_def float_of_int_0 py_ge_def py_le_def float_op_def
        round_double_one_half w1)
  have rest: "cyclic_loop j data refresh (PFloat (Finite (1 / 2))) (PInt (- 100)) (PInt 100)
      (PFloat (Finite (triangle_wave (Suc 0)))) True =
      (concat (map (\<lambda>i. [WriteValue data (PyNum (PFloat (Finite (triangle_wave (Suc 0 + i))))),
                           Sleep refresh]) [0..<j]), None)"
    by (rule cyclic_loop_wave) simp
  show ?thesis
    unfolding Suc first rest upt_Suc_shift
    by (simp add: emit_def comp_def w1)
qed

text \<open>
  Claim C3.  The triangular wave generator that \<^verbatim>\<open>main\<close> starts with \<^verbatim>\<open>min=-100\<close>,
  \<^verbatim>\<open>max=100\<close>, \<^verbatim>\<open>step=0.5\<close> and \<^verbatim>\<open>init=0\<close> never raises, and the \<open>n\<close>-th value it
  writes is the float \<open>triangle_wave n\<close>: every sum and difference of the loop is exact
  in binary64.  The sequence starts at 0 going up; each value differs
  from the one before by exactly one step; while it goes up it keeps going up until a
  value of at least 100 has been written, and then goes down; while it goes down it keeps
  going down until a value of at most -100 has been written, and then goes up; both
  bounds are reached again after every index; and every value lies in
  \<open>[-100 - step, 100 + step]\<close>.
\<close>

theorem cyclic_task_triangular:
  "(\<exists>es. cyclic_task main k = (es, None) \<and>
         writes es = map (\<lambda>i. (5, PyNum (PFloat (Finite (triangle_wave i))))) [0..<k]) \<and>
   triangle_wave 0 = 0 \<and> triangle_wave 0 < triangle_wave 1 \<and>
   (triangle_wave (Suc n) = triangle_wave n + 1 / 2 \<or>
    triangle_wave (Suc n) = triangle_wave n - 1 / 2) \<and>
   (triangle_wave n < triangle_wave (Suc n) \<longrightarrow>
      (if 100 \<le> triangle_wave (Suc n) then triangle_wave (Suc (Suc n)) < triangle_wave (Suc n)
       else triangle_wave (Suc n) < triangle_wave (Suc (Suc n)))) \<and>
   (triangle_wave (Suc n) < triangle_wave n \<longrightarrow>
      (if triangle_wave (Suc n) \<le> - 100 then triangle_wave (Suc n) < triangle_wave (Suc (Suc n))
       else triangle_wave (Suc (Suc n)) < triangle_wave (Suc n))) \<and>
   (\<exists>m\<ge>n. 100 \<le> triangle_wave m) \<and> (\<exists>m\<ge>n. triangle_wave m \<le> - 100) \<and>
   - 100 - 1 / 2 \<le> triangle_wave n \<and> triangle_wave n \<le> 100 + 1 / 2"
proof (intro conjI)
  show "\<exists>es. cyclic_task main k = (es, None) \<and>
      writes es = map (\<lambda>i. (5, PyNum (PFloat (Finite (triangle_wave i))))) [0..<k]"
    by (simp add: cyclic_task_main cyclic_loop_main writes_concat_pairs)
next
  show "triangle_wave 0 = 0" by (simp add: triangle_wave_def)
next
  show "triangle_wave 0 < triangle_wave 1" by (simp add: triangle_wave_def)
next
  show "triangle_wave (Suc n) = triangle_wave n + 1 / 2 \<or>
      triangle_wave (Suc n) = triangle_wave n - 1 / 2"
    by (simp add: triangle_wave_Suc)
next
  have up: "(triangle_wave m < triangle_wave (Suc m)) = rising m" for m
    by (simp add: triangle_wave_Suc)
  have "n mod 800 < 800" by simp
  then have "rising n \<longrightarrow> (if Suc n mod 800 = 200 then \<not> rising (Suc n) else rising (Suc n))"
    by (auto simp add: rising_def mod_Suc)
  moreover have "(triangle_wave (Suc (Suc n)) < triangle_wave (Suc n)) = (\<not> rising (Suc n))"
    by (simp add: triangle_wave_Suc)
  ultimately show "triangle_wave n < triangle_wave (Suc n) \<longrightarrow>
      (if 100 \<le> triangle_wave (Suc n) then triangle_wave (Suc (Suc n)) < triangle_wave (Suc n)
       else triangle_wave (Suc n) < triangle_wave (Suc (Suc n)))"
    unfolding triangle_wave_ge_100 up by simp
next
  have up: "(triangle_wave m < triangle_wave (Suc m)) = rising m" for m
    by (simp add: triangle_wave_Suc)
  have down: "(triangle_wave (Suc m) < triangle_wave m) = (\<not> rising m)" for m
    by (simp add: triangle_wave_Suc)
  have "n mod 800 < 800" by simp
  then have "\<not> rising n \<longrightarrow> (if Suc n mod 800 = 600 then rising (Suc n) else \<not> rising (Suc n))"
    by (auto simp add: rising_def mod_Suc)
  then show "triangle_wave (Suc n) < triangle_wave n \<longrightarrow>
      (if triangle_wave (Suc n) \<le> - 100 then triangle_wave (Suc n) < triangle_wave (Suc (Suc n))
       else triangle_wave (Suc (Suc n)) < triangle_wave (Suc n))"
    unfolding triangle_wave_le_100 up down by simp
next
  have "n \<le> 800 * n + 200" by simp
  moreover have "100 \<le> triangle_wave (800 * n + 200)"
    unfolding triangle_wave_ge_100 by simp
  ultimately show "\<exists>m\<ge>n. 100 \<le> triangle_wave m" by blast
next
  have "n \<le> 800 * n + 600" by simp
  moreover have "triangle_wave (800 * n + 600) \<le> - 100"
    unfolding triangle_wave_le_100 by simp
  ultimately show "\<exists>m\<ge>n. triangle_wave m \<le> - 100" by blast
next
  show "- 100 - 1 / 2 \<le> triangle_wave n"
    using triangle_wave_bounds [of n] by simp
next
  show "triangle_wave n \<le> 100 + 1 / 2"
    using triangle_wave_bounds [of n] by simp
qed

theorem cyclic_task_triangular_witness:
  "(\<exists>es. cyclic_task main 3 = (es, None) \<and>
         writes es = [(5, PyNum (PFloat (Finite 0))), (5, PyNum (PFloat (Finite (1 / 2)))),
                      (5, PyNum (PFloat (Finite 1)))]) \<and>
   triangle_wave 199 < triangle_wave 200 \<and> 100 \<le> triangle_wave 200 \<and>
   triangle_wave 201 < triangle_wave 200 \<and>
   triangle_wave 600 < triangle_wave 599 \<and> triangle_wave 600 \<le> - 100 \<and>
   triangle_wave 600 < triangle_wave 601"
proof -
  have l: "[0..<3] = [0, 1, 2]"
    by (simp add: upt_rec)
  have s: "Suc 199 = 200" "Suc (Suc 199) = 201" "Suc 599 = 600" "Suc (Suc 599) = 601"
    by simp_all
  show ?thesis
    using cyclic_task_triangular [of 3 199] cyclic_task_triangular [of 3 599]
    unfolding l s
    by (simp add: triangle_wave_def)
qed

section \<open>The generators on one node\<close>

text \<open>
  The four generators observed for two iterations on node 5: every write goes to node 5,
  and the triangular wave generator has written 0 and 0.5 there.
\<close>

theorem generators_write_own_node_witness:
  "fst ` set (writes (toggle_data 2 5 (PInt 10) True)) \<subseteq> {5} \<and>
   fst ` set (writes (fst (periodic_data 2 5 (PInt 10) (PInt 0) (PInt 1)))) \<subseteq> {5} \<and>
   fst ` set (writes (fst (random_data (\<lambda>i. 1 / 2) 2 5 (PInt 10) (PInt 0) (PInt (- 100)) (PInt 100))))
     \<subseteq> {5} \<and>
   fst ` set (writes (fst (cyclic_data 2 5 (PInt 200) (PFloat (Finite (1 / 2))) (PInt 0) (PInt (- 100))
     (PInt 100)))) \<subseteq> {5} \<and>
   writes (fst (cyclic_data 2 5 (PInt 200) (PFloat (Finite (1 / 2))) (PInt 0) (PInt (- 100))
     (PInt 100))) = [(5, PyNum (PFloat (Finite 0))), (5, PyNum (PFloat (Finite (1 / 2))))]"
proof -
  have c: "cyclic_data 2 5 (PInt 200) (PFloat (Finite (1 / 2))) (PInt 0) (PInt (- 100)) (PInt 100) =
      cyclic_task main 2"
    by (simp add: main_tasks)
  have l: "[0..<2] = [0, 1]"
    by (simp add: upt_rec)
  have w: "triangle_wave 0 = 0" "triangle_wave (Suc 0) = 1 / 2"
    by (simp_all add: triangle_wave_def)
  show ?thesis
    using generators_write_own_node [where k = 2 and data = 5 and refresh = "PInt 10" and b = True
        and init = "PInt 0" and increment = "PInt 1" and random = "\<lambda>i. 1 / 2"
        and minv = "PInt (- 100)" and maxv = "PInt 100" and cycle_time = "PInt 200"
        and step = "PFloat (Finite (1 / 2))"]
    unfolding c cyclic_task_main cyclic_loop_main l
    by (simp add: w)
qed

section \<open>The variables created at startup\<close>

text \<open>
  Counterexample to claim C8 as stated: the number of variable creation requests is not
  ten.
\<close>

theorem startup_creates_eleven_variables_counterexample:
  "length (variables (srv main)) \<noteq> 10"
  by (simp add: main_srv)

text \<open>
  Claim C8, amended.  At startup \<^verbatim>\<open>main\<close> requests the creation of exactly eleven
  variables, in this order: a boolean for the toggle generator, two doubles for the two
  ramps, two doubles for the two bounded-random generators, one double for the triangular
  wave, two booleans for the mirror (original and copy) and three strings for the
  position feed.
\<close>

theorem startup_creates_eleven_variables:
  "variables (srv main) =
     [(''BooleanData'', PyBool True, Boolean),
      (''PositiveTrendData'', PyNum (PInt 0), Double),
      (''NegativeTrendData'', PyNum (PInt 0), Double),
      (''TemperatureData'', PyNum (PFloat (Finite (37 / 2))), Double),
      (''HumidityData'', PyNum (PFloat (py_float (301 / 5))), Double),
      (''CyclicData'', PyNum (PFloat (Finite 0)), Double),
      (''MirrorDataOriginal'', PyBool True, Boolean),
      (''MirrorDataCopy'', PyBool True, Boolean),
      (''GPSLatitude'', PyStr [], String),
      (''GPSLongitude'', PyStr [], String),
      (''GPSLatitudeAndLongitude'', PyStr [], String)] \<and>
   length (variables (srv main)) = 11 \<and>
   bool_task main = (\<lambda>k. toggle_data k 0 (PInt 10) True) \<and>
   pos_task main = (\<lambda>k. periodic_data k 1 (PInt 5) (PInt 0) (PInt 1)) \<and>
   neg_task main = (\<lambda>k. periodic_data k 2 (PInt 5) (PInt 0) (PInt (- 2))) \<and>
   temp_task main =
     (\<lambda>random k. random_data random k 3 (PInt 10) (PFloat (Finite (37 / 2))) (PInt 15) (PInt 22)) \<and>
   hum_task main =
     (\<lambda>random k. random_data random k 4 (PInt 10) (PFloat (py_float (301 / 5))) (PInt 0)
        (PInt 100)) \<and>
   cyclic_task main =
     (\<lambda>k. cyclic_data k 5 (PInt 200) (PFloat (Finite (1 / 2))) (PInt 0) (PInt (- 100)) (PInt 100)) \<and>
   orig_data (mirror_handler main) = 6 \<and> copy_data (mirror_handler main) = 7 \<and>
   lat_data (tcx_update_handler main) = 8 \<and> long_data (tcx_update_handler main) = 9 \<and>
   lat_long_data (tcx_update_handler main) = 10"
  by (simp add: main_srv main_tasks main_handlers)

section \<open>The historization registered at startup\<close>

text \<open>
  Counterexample to claim C9 as stated: the count cap of the one registration is the
  integer 10000, which is a limit.
\<close>

theorem startup_historizes_cyclic_counterexample:
  "map (\<lambda>(n, period, count). (count, unbounded count)) (historized (srv main)) =
     [(PyNum (PInt 10000), False)]"
  by (simp add: main_srv unbounded_def)

text \<open>
  Claim C9, amended.  At startup \<^verbatim>\<open>main\<close> registers exactly one historization, on the
  variable of the triangular wave generator, with no limit on the age of the stored
  changes (\<^verbatim>\<open>period=None\<close>) and a count cap of 10000.
\<close>

theorem startup_historizes_cyclic:
  "historized (srv main) = [(5, PyNone, PyNum (PInt 10000))] \<and>
   unbounded PyNone \<and> \<not> unbounded (PyNum (PInt 10000)) \<and>
   variables (srv main) ! 5 = (''CyclicData'', PyNum (PFloat (Finite 0)), Double) \<and>
   cyclic_task main =
     (\<lambda>k. cyclic_data k 5 (PInt 200) (PFloat (Finite (1 / 2))) (PInt 0) (PInt (- 100)) (PInt 100))"
  by (simp add: main_srv main_tasks unbounded_def)

section \<open>The change notification of the mirror\<close>

text \<open>
  Counterexample to claim C1 as stated: a notification for a node other than the
  original (here node 0, the toggle's variable), carrying a value that is not a boolean,
  is dropped without a log record.
\<close>

theorem datachange_notification_counterexample:
  "\<not> isinstance_bool (PyNum (PInt 3)) \<and>
   datachange_notification (\<lambda>n v. None) (mirror_handler main) 0 (PyNum (PInt 3)) () = ([], None)"
  by (simp add: datachange_notification_def main_handlers)

text \<open>
  Claim C1, amended.  For every invocation of the handler with a node and a value: a
  write to the copy variable occurs if and only if the node is the original variable's and
  the value is a boolean; the call then is the one write of exactly that value to the copy
  variable, and the handler ends as that call does.  When the node is the original
  variable's and the value is not a boolean, the one call is the error log record, no
  write occurs and no exception leaves the handler.  For any other node nothing is
  written and nothing is logged.
\<close>

theorem datachange_notification_guard:
  "(writes (fst (datachange_notification w self node val data)) \<noteq> [] \<longleftrightarrow>
      orig_data self = node \<and> isinstance_bool val) \<and>
   (orig_data self = node \<and> isinstance_bool val \<longrightarrow>
      datachange_notification w self node val data =
        ([WriteAttributeValue (copy_data self) val], w (copy_data self) val)) \<and>
   (orig_data self = node \<and> \<not> isinstance_bool val \<longrightarrow>
      datachange_notification w self node val data =
        ([LogError ''Node value is not boolean''], None)) \<and>
   (orig_data self \<noteq> node \<longrightarrow> datachange_notification w self node val data = ([], None))"
  by (simp add: datachange_notification_def)

theorem datachange_notification_guard_witness:
  "datachange_notification (\<lambda>n v. Some (UaError ''BadTypeMismatch'')) (mirror_handler main) 6
     (PyBool False) () =
     ([WriteAttributeValue 7 (PyBool False)], Some (UaError ''BadTypeMismatch'')) \<and>
   datachange_notification (\<lambda>n v. Some (UaError ''BadTypeMismatch'')) (mirror_handler main) 6
     (PyNum (PInt 1)) () =
     ([LogError ''Node value is not boolean''], None) \<and>
   datachange_notification (\<lambda>n v. Some (UaError ''BadTypeMismatch'')) (mirror_handler main) 0
     (PyBool False) () = ([], None)"
  using
    datachange_notification_guard [of "\<lambda>n v. Some (UaError ''BadTypeMismatch'')"
      "mirror_handler main" 6 "PyBool False" "()"]
    datachange_notification_guard [of "\<lambda>n v. Some (UaError ''BadTypeMismatch'')"
      "mirror_handler main" 6 "PyNum (PInt 1)" "()"]
    datachange_notification_guard [of "\<lambda>n v. Some (UaError ''BadTypeMismatch'')"
      "mirror_handler main" 0 "PyBool False" "()"]
  by (simp add: main_handlers)

section \<open>The update callback of the position feed\<close>

lemma truthy_dict_get: "truthy (dict_get p key) = (\<exists>v. p key = Some v \<and> truthy v)"
  by (simp add: dict_get_def split: option.splits)

lemma py_float_nonzero: "1 \<le> \<bar>q\<bar> \<Longrightarrow> py_float q \<noteq> Finite 0"
proof -
  assume q: "1 \<le> \<bar>q\<bar>"
  have "(2::rat) powi (- 1075) < 2 powi 0"
    by (intro power_int_strict_increasing) simp_all
  with q have "\<not> \<bar>q\<bar> \<le> 2 powi (- 1075)" by simp
  then show ?thesis by (simp add: py_float_def round_double_zero_iff)
qed

lemma truthy_track:
  "truthy (PyNum (PFloat (py_float (431 / 10))))" "truthy (PyNum (PFloat (py_float (- 2))))"
  "truthy (PyNum (PFloat (py_float (- 21 / 10))))" "truthy (PyNum (PFloat (py_float (216 / 5))))"
  by (simp_all add: py_float_nonzero)

text \<open>
  Claim C4.  For every position record the callback writes the latitude variable exactly
  when the record holds a latitude that is truthy (so a latitude of 0.0 is skipped), the
  longitude variable likewise, and the combined string exactly when both hold.  For the
  track of the three records (43.1, -2.0), (None, -2.1), (43.2, None) the first record
  writes all three variables, the second the longitude only and the third the latitude
  only: over the track the latitude is written twice, the longitude twice and the
  combined string once.
\<close>

theorem on_update_writes:
  assumes "distinct [lat_data self, long_data self, lat_long_data self]"
  shows
    "(lat_data self \<in> fst ` set (writes (on_update fmt self p))) =
       (\<exists>v. p ''latitude'' = Some v \<and> truthy v) \<and>
     (long_data self \<in> fst ` set (writes (on_update fmt self p))) =
       (\<exists>v. p ''longitude'' = Some v \<and> truthy v) \<and>
     (lat_long_data self \<in> fst ` set (writes (on_update fmt self p))) =
       ((\<exists>v. p ''latitude'' = Some v \<and> truthy v) \<and> (\<exists>v. p ''longitude'' = Some v \<and> truthy v)) \<and>
     (p ''latitude'' = Some (PyNum (PFloat (Finite 0))) \<longrightarrow>
        lat_data self \<notin> fst ` set (writes (on_update fmt self p))) \<and>
     map (\<lambda>r. map fst (writes (on_update fmt self r)))
       [[''latitude'' \<mapsto> PyNum (PFloat (py_float (431 / 10))),
         ''longitude'' \<mapsto> PyNum (PFloat (py_float (- 2)))],
        [''latitude'' \<mapsto> PyNone, ''longitude'' \<mapsto> PyNum (PFloat (py_float (- 21 / 10)))],
        [''latitude'' \<mapsto> PyNum (PFloat (py_float (216 / 5))), ''longitude'' \<mapsto> PyNone]] =
       [[lat_data self, long_data self, lat_long_data self], [long_data self], [lat_data self]] \<and>
     map (\<lambda>n. count_list
            (map fst (writes (tcx_start (on_update fmt self)
               [[''latitude'' \<mapsto> PyNum (PFloat (py_float (431 / 10))),
                 ''longitude'' \<mapsto> PyNum (PFloat (py_float (- 2)))],
                [''latitude'' \<mapsto> PyNone, ''longitude'' \<mapsto> PyNum (PFloat (py_float (- 21 / 10)))],
                [''latitude'' \<mapsto> PyNum (PFloat (py_float (216 / 5))), ''longitude'' \<mapsto> PyNone]]))) n)
       [lat_data self, long_data self, lat_long_data self] = [2, 2, 1]"
proof -
  have d: "lat_data self \<noteq> long_data self" "lat_data self \<noteq> lat_long_data self"
    "long_data self \<noteq> lat_long_data self"
    using assms by auto
  have 1: "(lat_data self \<in> fst ` set (writes (on_update fmt self p))) =
       (\<exists>v. p ''latitude'' = Some v \<and> truthy v)"
    using d by (auto simp add: on_update_def Let_def writes_append truthy_dict_get)
  have 2: "(long_data self \<in> fst ` set (writes (on_update fmt self p))) =
       (\<exists>v. p ''longitude'' = Some v \<and> truthy v)"
    using d by (auto simp add: on_update_def Let_def writes_append truthy_dict_get)
  have 3: "(lat_long_data self \<in> fst ` set (writes (on_update fmt self p))) =
       ((\<exists>v. p ''latitude'' = Some v \<and> truthy v) \<and> (\<exists>v. p ''longitude'' = Some v \<and> truthy v))"
    using d by (auto simp add: on_update_def Let_def writes_append truthy_dict_get)
  have 4: "p ''latitude'' = Some (PyNum (PFloat (Finite 0))) \<longrightarrow>
        lat_data self \<notin> fst ` set (writes (on_update fmt self p))"
    unfolding 1 by simp
  have 5: "map (\<lambda>r. map fst (writes (on_update fmt self r)))
       [[''latitude'' \<mapsto> PyNum (PFloat (py_float (431 / 10))),
         ''longitude'' \<mapsto> PyNum (PFloat (py_float (- 2)))],
        [''latitude'' \<mapsto> PyNone, ''longitude'' \<mapsto> PyNum (PFloat (py_float (- 21 / 10)))],
        [''latitude'' \<mapsto> PyNum (PFloat (py_float (216 / 5))), ''longitude'' \<mapsto> PyNone]] =
       [[lat_data self, long_data self, lat_long_data self], [long_data self], [lat_data self]]"
    using truthy_track by (simp add: on_update_def dict_get_def Let_def del: truthy.simps(3))
  have 6: "map (\<lambda>n. count_list
            (map fst (writes (tcx_start (on_update fmt self)
               [[''latitude'' \<mapsto> PyNum (PFloat (py_float (431 / 10))),
                 ''longitude'' \<mapsto> PyNum (PFloat (py_float (- 2)))],
                [''latitude'' \<mapsto> PyNone, ''longitude'' \<mapsto> PyNum (PFloat (py_float (- 21 / 10)))],
                [''latitude'' \<mapsto> PyNum (PFloat (py_float (216 / 5))), ''longitude'' \<mapsto> PyNone]]))) n)
       [lat_data self, long_data self, lat_long_data self] = [2, 2, 1]"
    using d truthy_track
    by (simp add: tcx_start_def on_update_def dict_get_def Let_def del: truthy.simps(3))
  from 1 2 3 4 5 6 show ?thesis by blast
qed

theorem on_update_writes_witness:
  "distinct [lat_data (tcx_update_handler main), long_data (tcx_update_handler main),
     lat_long_data (tcx_update_handler main)] \<and>
   8 \<notin> fst ` set (writes (on_update (\<lambda>v. ''?'') (tcx_update_handler main)
          [''latitude'' \<mapsto> PyNum (PFloat (Finite 0)),
           ''longitude'' \<mapsto> PyNum (PFloat (Finite (- 2)))])) \<and>
   9 \<in> fst ` set (writes (on_update (\<lambda>v. ''?'') (tcx_update_handler main)
          [''latitude'' \<mapsto> PyNum (PFloat (Finite 0)),
           ''longitude'' \<mapsto> PyNum (PFloat (Finite (- 2)))]))"
proof -
  have h: "distinct [lat_data (tcx_update_handler main), long_data (tcx_update_handler main),
     lat_long_data (tcx_update_handler main)]"
    by (simp add: main_handlers)
  show ?thesis
    using h on_update_writes [OF h, of "\<lambda>v. ''?''"
        "[''latitude'' \<mapsto> PyNum (PFloat (Finite 0)),
          ''longitude'' \<mapsto> PyNum (PFloat (Finite (- 2)))]"]
    by (simp add: main_handlers)
qed

section \<open>The bounded random generator\<close>

lemma draw_in_range:
  assumes "0 \<le> u" "u < 1"
  shows "\<exists>r. draw (PInt 15) (PInt 22) (Finite u) = Inr (PFloat (Finite r)) \<and> 15 \<le> r \<and> r \<le> 22 \<and>
           two_places (Finite r)"
proof -
  have "of_int 0 \<le> 7 * u" "7 * u \<le> of_int 7" using assms by simp_all
  from round_double_between [OF this] obtain p where
    p: "round_double (7 * u) = Finite p" "0 \<le> p" "p \<le> 7"
    by auto
  have "of_int 15 \<le> 15 + p" "15 + p \<le> of_int 22" using p by simp_all
  from round_double_between [OF this] obtain x where
    x: "round_double (15 + p) = Finite x" "15 \<le> x" "x \<le> 22"
    by auto
  have u: "uniform (PInt 15) (PInt 22) (Finite u) = Inr (PFloat (Finite x))"
    by (simp add: uniform_def float_op_def float_of_int_numeral p x)
  let ?d = "round_half_even (x * 100)"
  have "of_int 1500 \<le> x * 100" using x by simp
  then have lo: "1500 \<le> ?d" by (rule round_half_even_ge)
  have "x * 100 \<le> of_int 2200" using x by simp
  then have hi: "?d \<le> 2200" by (rule round_half_even_le)
  have "of_int 15 \<le> (of_int ?d :: rat) / 100" "(of_int ?d :: rat) / 100 \<le> of_int 22"
    using lo hi by simp_all
  from round_double_between [OF this] obtain r where
    r: "round_double (of_int ?d / 100) = Finite r" "15 \<le> r" "r \<le> 22"
    by auto
  have "draw (PInt 15) (PInt 22) (Finite u) = Inr (PFloat (Finite r))"
    by (simp add: draw_def u r)
  moreover have "two_places (Finite r)"
    unfolding two_places_def using r(1) by (intro exI [of _ ?d]) simp
  ultimately show ?thesis using r by blast
qed

lemma random_loop_draws:
  assumes "\<forall>j. draw minv maxv (Finite (random j)) = Inr (d j)"
    and "\<forall>m. g (Suc m) = d (i + m)"
  shows "random_loop random i k data refresh (g 0) minv maxv =
     (concat (map (\<lambda>n. [WriteValue data (PyNum (g n)), Sleep refresh]) [0..<k]), None)"
  using assms(2)
proof (induction k arbitrary: g i)
  case 0
  show ?case by simp
next
  case (Suc k)
  from assms(1) have di: "draw minv maxv (Finite (random i)) = Inr (d i)" by simp
  have "random_loop random (Suc i) k data refresh ((g \<circ> Suc) 0) minv maxv =
      (concat (map (\<lambda>n. [WriteValue data (PyNum ((g \<circ> Suc) n)), Sleep refresh]) [0..<k]), None)"
    by (rule Suc.IH) (simp add: Suc.prems)
  moreover have "(g \<circ> Suc) 0 = d i" using Suc.prems by simp
  ultimately show ?case
    unfolding upt_Suc_shift by (simp add: di comp_def emit_def)
qed

text \<open>
  Claim C5.  Let \<open>random\<close> be the successive results of \<^verbatim>\<open>random()\<close>, each in
  \<open>[0, 1)\<close>.  The generator that \<^verbatim>\<open>main\<close> starts with \<^verbatim>\<open>init=18.5\<close>, \<^verbatim>\<open>min=15\<close> and
  \<^verbatim>\<open>max=22\<close> never raises.  It writes the initial value first and, at every tick
  \<open>n \<ge> 1\<close>, the value drawn in iteration \<open>n - 1\<close>: the float that
  \<^verbatim>\<open>round(random.uniform(15, 22), 2)\<close> returns at the draw \<open>random (n - 1)\<close>, every
  operation rounded as binary64 arithmetic rounds it.  Every value written is a finite
  float in \<open>[15, 22]\<close> and is rounded to two decimal places: it is the float nearest to
  a whole number of hundredths.
\<close>

theorem temp_task_values:
  assumes "\<forall>i. 0 \<le> random i \<and> random i < 1"
  shows
    "\<exists>es. temp_task main random k = (es, None) \<and> length (writes es) = k \<and>
       (0 < k \<longrightarrow> writes es ! 0 = (3, PyNum (PFloat (Finite (37 / 2))))) \<and>
       (\<forall>n. 0 < n \<and> n < k \<longrightarrow>
          (\<exists>x. draw (PInt 15) (PInt 22) (Finite (random (n - 1))) = Inr x \<and>
               writes es ! n = (3, PyNum x))) \<and>
       (\<forall>nv \<in> set (writes es).
          \<exists>r. nv = (3, PyNum (PFloat (Finite r))) \<and> 15 \<le> r \<and> r \<le> 22 \<and> two_places (Finite r))"
proof -
  have "\<forall>j. \<exists>x. draw (PInt 15) (PInt 22) (Finite (random j)) = Inr x \<and>
      (\<exists>r. x = PFloat (Finite r) \<and> 15 \<le> r \<and> r \<le> 22 \<and> two_places (Finite r))"
  proof
    fix j
    from assms have "0 \<le> random j" "random j < 1" by simp_all
    from draw_in_range [OF this] show "\<exists>x. draw (PInt 15) (PInt 22) (Finite (random j)) = Inr x \<and>
      (\<exists>r. x = PFloat (Finite r) \<and> 15 \<le> r \<and> r \<le> 22 \<and> two_places (Finite r))"
      by blast
  qed
  then obtain d where d: "\<forall>j. draw (PInt 15) (PInt 22) (Finite (random j)) = Inr (d j)"
    and dr: "\<forall>j. \<exists>r. d j = PFloat (Finite r) \<and> 15 \<le> r \<and> r \<le> 22 \<and> two_places (Finite r)"
    by metis
  define f where "f n = (if n = 0 then PFloat (Finite (37 / 2)) else d (n - 1))" for n
  define es where "es = concat (map (\<lambda>n. [WriteValue 3 (PyNum (f n)), Sleep (PInt 10)]) [0..<k])"
  have f0: "f 0 = PFloat (Finite (37 / 2))" and fS: "\<forall>m. f (Suc m) = d (0 + m)"
    by (simp_all add: f_def)
  have run: "temp_task main random k = (es, None)"
    using random_loop_draws [OF d fS, of k 3 "PInt 10"]
    by (simp add: main_tasks random_data_def es_def f0)
  have w: "writes es = map (\<lambda>n. (3, PyNum (f n))) [0..<k]"
    unfolding es_def by (rule writes_concat_pairs)
  have first: "0 < k \<longrightarrow> writes es ! 0 = (3, PyNum (PFloat (Finite (37 / 2))))"
    unfolding w by (simp add: f_def)
  have later: "\<forall>n. 0 < n \<and> n < k \<longrightarrow>
      (\<exists>x. draw (PInt 15) (PInt 22) (Finite (random (n - 1))) = Inr x \<and>
           writes es ! n = (3, PyNum x))"
    unfolding w using d by (simp add: f_def)
  have two: "two_places (Finite (37 / 2))"
    unfolding two_places_def using round_double_half [of 37]
    by (intro exI [of _ 1850]) simp
  have range: "\<exists>r. f n = PFloat (Finite r) \<and> 15 \<le> r \<and> r \<le> 22 \<and> two_places (Finite r)" for n
  proof (cases "n = 0")
    case True
    then have "f n = PFloat (Finite (37 / 2))" by (simp add: f_def)
    moreover have "(15::rat) \<le> 37 / 2" "(37 / 2 :: rat) \<le> 22" by simp_all
    ultimately show ?thesis using two by blast
  next
    case False
    with dr show ?thesis by (simp add: f_def)
  qed
  have all: "\<forall>nv \<in> set (writes es).
      \<exists>r. nv = (3, PyNum (PFloat (Finite r))) \<and> 15 \<le> r \<and> r \<le> 22 \<and> two_places (Finite r)"
  proof
    fix nv
    assume "nv \<in> set (writes es)"
    then obtain n where "nv = (3, PyNum (f n))" unfolding w by auto
    with range [of n] show "\<exists>r. nv = (3, PyNum (PFloat (Finite r))) \<and> 15 \<le> r \<and> r \<le> 22 \<and>
        two_places (Finite r)"
      by auto
  qed
  from run w first later all show ?thesis by (intro exI [of _ es]) simp
qed

lemma round_half_even_eqI: "of_int m \<le> x \<Longrightarrow> x < of_int m + 1 / 2 \<Longrightarrow> round_half_even x = m"
proof -
  assume a: "of_int m \<le> x" "x < of_int m + 1 / 2"
  then have "\<lfloor>x\<rfloor> = m" by (simp add: floor_eq_iff)
  with a show ?thesis by (simp add: round_half_even_def Let_def)
qed

lemma round_double_eqI:
  assumes "- 1022 \<le> e" "e \<le> 1023" "2 powi e \<le> \<bar>q\<bar>" "\<bar>q\<bar> < 2 powi (e + 1)"
    and "round_half_even (q / 2 powi (e - 52)) = m"
    and "\<bar>of_int m * 2 powi (e - 52) :: rat\<bar> < 2 powi 1024"
  shows "round_double q = Finite (of_int m * 2 powi (e - 52))"
proof -
  from assms(1-4) have "binade \<bar>q\<bar> = Some e" by (intro binade_eqI) simp_all
  with assms(5,6) show ?thesis by (simp add: round_double_def Let_def)
qed

lemma draw_example:
  "draw (PInt 15) (PInt 22) (Finite (804214219173303 / 2 ^ 53)) =
     Inr (PFloat (py_float (1562 / 100)))"
proof -
  let ?u = "804214219173303 / 2 ^ 53 :: rat"
  have p: "round_double (7 * ?u) = Finite (7 * ?u)"
    by (rule round_double_exact [where m = 5629499534213121 and j = "- 53"])
      (simp_all add: power_int_minus)
  have "round_half_even ((15 + 7 * ?u) / 2 powi (3 - 52)) = 8796093022208000"
    by (rule round_half_even_eqI) (simp_all add: power_int_minus)
  then have "round_double (15 + 7 * ?u) = Finite (of_int 8796093022208000 * 2 powi (3 - 52))"
    by (intro round_double_eqI) (simp_all add: power_int_minus)
  then have x: "round_double (15 + 7 * ?u) = Finite (125 / 8)"
    by (simp add: power_int_minus)
  have u: "uniform (PInt 15) (PInt 22) (Finite ?u) = Inr (PFloat (Finite (125 / 8)))"
    using p x by (simp add: uniform_def float_op_def float_of_int_numeral)
  have "\<lfloor>3125 / 2 :: rat\<rfloor> = 1562" by (simp add: floor_eq_iff)
  then have d: "round_half_even (125 / 8 * 100) = 1562"
    by (simp add: round_half_even_def Let_def)
  have "of_int 15 \<le> (1562 / 100 :: rat)" "(1562 / 100 :: rat) \<le> of_int 22" by simp_all
  from round_double_between [OF this] obtain r where r: "round_double (1562 / 100) = Finite r"
    by auto
  from r d have "py_round2 (PFloat (Finite (125 / 8))) = Inr (PFloat (py_float (1562 / 100)))"
    by (simp add: py_float_def)
  then show ?thesis
    unfolding draw_def u by (simp only: sum.case)
qed

lemma py_float_1562: "py_float (1562 / 100) = Finite (8793278272440893 / 2 ^ 49)"
proof -
  have "round_half_even ((1562 / 100) / 2 powi (3 - 52)) = 8793278272440893"
    by (rule round_half_even_eqI) (simp_all add: power_int_minus)
  then have "round_double (1562 / 100) = Finite (of_int 8793278272440893 * 2 powi (3 - 52))"
    by (intro round_double_eqI) (simp_all add: power_int_minus)
  then show ?thesis
    by (simp add: py_float_def power_int_minus)
qed

text \<open>
  At the draw \<open>804214219173303 / 2 ^ 53\<close> the sum \<open>15 + 7 * u\<close> is the float 15.625,
  a tie between two hundredths that goes to the even one: the generator writes the float
  nearest to 15.62, which is \<open>8793278272440893 / 2 ^ 49\<close>.
\<close>

theorem temp_task_values_witness:
  "(\<forall>i::nat. (0::rat) \<le> 804214219173303 / 2 ^ 53 \<and> (804214219173303 / 2 ^ 53 :: rat) < 1) \<and>
   (\<exists>es. temp_task main (\<lambda>i. 804214219173303 / 2 ^ 53) 2 = (es, None) \<and>
      writes es = [(3, PyNum (PFloat (Finite (37 / 2)))),
                   (3, PyNum (PFloat (Finite (8793278272440893 / 2 ^ 49))))]) \<and>
   py_float (1562 / 100) = Finite (8793278272440893 / 2 ^ 49)"
proof -
  have h: "\<forall>i::nat. (0::rat) \<le> (\<lambda>i. 804214219173303 / 2 ^ 53) i \<and>
      (\<lambda>i. 804214219173303 / 2 ^ 53 :: rat) i < 1"
    by simp
  from temp_task_values [OF h, of 2] obtain es where
    run: "temp_task main (\<lambda>i. 804214219173303 / 2 ^ 53) 2 = (es, None)"
    and len: "length (writes es) = 2"
    and first: "writes es ! 0 = (3, PyNum (PFloat (Finite (37 / 2))))"
    and later: "\<exists>x. draw (PInt 15) (PInt 22) (Finite (804214219173303 / 2 ^ 53)) = Inr x \<and>
        writes es ! 1 = (3, PyNum x)"
    by auto
  from later have second:
    "writes es ! 1 = (3, PyNum (PFloat (Finite (8793278272440893 / 2 ^ 49))))"
    unfolding draw_example py_float_1562 by blast
  from len obtain a b where ab: "writes es = [a, b]"
    by (cases "writes es"; cases "tl (writes es)") auto
  with first second have w: "writes es =
      [(3, PyNum (PFloat (Finite (37 / 2)))),
       (3, PyNum (PFloat (Finite (8793278272440893 / 2 ^ 49))))]"
    by simp
  have "\<exists>es. temp_task main (\<lambda>i. 804214219173303 / 2 ^ 53) 2 = (es, None) \<and>
      writes es = [(3, PyNum (PFloat (Finite (37 / 2)))),
                   (3, PyNum (PFloat (Finite (8793278272440893 / 2 ^ 49))))]"
    using run w by blast
  moreover have "\<forall>i::nat. (0::rat) \<le> 804214219173303 / 2 ^ 53 \<and>
      (804214219173303 / 2 ^ 53 :: rat) < 1"
    by simp
  ultimately show ?thesis
    using py_float_1562 by blast
qed

section \<open>The divisions of the triangular wave generator\<close>

lemma float_of_int_error: "float_of_int i = Inl e \<Longrightarrow> e = OverflowError"
  by (simp add: float_of_int_def split: pyfloat.splits)

lemma as_float_error: "as_float a = Inl e \<Longrightarrow> e = OverflowError"
  by (cases a) (auto dest: float_of_int_error)

lemma float_op_error: "float_op f a b = Inl e \<Longrightarrow> e = OverflowError"
  by (auto simp add: float_op_def split: sum.splits dest: as_float_error)

lemma py_sub_error: "py_sub a b = Inl e \<Longrightarrow> e = OverflowError"
  by (cases a; cases b) (auto dest: float_op_error)

lemma py_truediv_by_zero:
  assumes "num_value step = Finite 0"
  shows "py_truediv a step = Inl ZeroDivisionError \<or> py_truediv a step = Inl OverflowError"
proof (cases step)
  case (PInt j)
  with assms have j: "j = 0" by simp
  show ?thesis
  proof (cases a)
    case (PInt i)
    with \<open>step = PInt j\<close> j show ?thesis by simp
  next
    case (PFloat x)
    with \<open>step = PInt j\<close> j show ?thesis by (simp add: float_of_int_0)
  qed
next
  case (PFloat y)
  with assms have y: "y = Finite 0" by simp
  show ?thesis
  proof (cases a)
    case (PInt i)
    show ?thesis
    proof (cases "float_of_int i")
      case (Inl e)
      with float_of_int_error [OF Inl] PInt \<open>step = PFloat y\<close> show ?thesis by simp
    next
      case (Inr x)
      with PInt \<open>step = PFloat y\<close> y show ?thesis by simp
    qed
  next
    case (PFloat x)
    with \<open>step = PFloat y\<close> y show ?thesis by simp
  qed
qed

lemma cyclic_loop_not_zero_division:
  "cyclic_loop k data refresh step minv maxv v up \<noteq> ([], Some ZeroDivisionError)"
proof (cases k)
  case 0
  then show ?thesis by simp
next
  case (Suc j)
  show ?thesis
  proof (cases "ua_Double v")
    case (Inl e)
    then have "e = OverflowError"
      by (auto simp add: ua_Double_def split: sum.splits dest: as_float_error)
    with Inl Suc show ?thesis by simp
  next
    case (Inr d)
    with Suc show ?thesis by (simp add: emit_def)
  qed
qed

lemma cyclic_data_step_zero:
  assumes "num_value step = Finite 0"
  shows "cyclic_data k data cycle_time step init minv maxv = ([], Some ZeroDivisionError) \<or>
         cyclic_data k data cycle_time step init minv maxv = ([], Some OverflowError)"
proof (cases "py_sub maxv minv")
  case (Inl e)
  with py_sub_error [OF Inl] show ?thesis by (simp add: cyclic_data_def)
next
  case (Inr interval)
  with py_truediv_by_zero [OF assms, of interval] show ?thesis
    by (auto simp add: cyclic_data_def)
qed

lemma cyclic_data_ints:
  assumes c: "float_of_int ct = Inr c" and st: "st \<noteq> 0"
  shows "cyclic_data k data (PInt ct) (PInt st) init (PInt mn) (PInt mx) =
     (case round_double (of_int (mx - mn) / of_int st) of
        Finite r \<Rightarrow>
          if r = 0 then ([], Some ZeroDivisionError)
          else cyclic_loop k data (PFloat (float_div c (Finite r))) (PInt st) (PInt mn) (PInt mx)
                 init True
      | x \<Rightarrow> ([], Some OverflowError))"
  using c st by (simp add: cyclic_data_def split: pyfloat.splits)

text \<open>
  Claim C10, amended.  The triangular wave generator computes its per-step interval
  \<^verbatim>\<open>cycle_time / ((max - min) / step)\<close> before the loop, so an exception raised there
  leaves it before any write.  Called with a step of zero it always raises:
  \<^verbatim>\<open>ZeroDivisionError\<close>, or \<^verbatim>\<open>OverflowError\<close> when an \<^verbatim>\<open>int\<close> argument is too large for a
  float.  For \<^verbatim>\<open>int\<close> arguments \<^verbatim>\<open>max\<close>, \<^verbatim>\<open>min\<close> and \<^verbatim>\<open>step\<close> and a \<^verbatim>\<open>cycle_time\<close> that
  converts to a float, it raises \<^verbatim>\<open>ZeroDivisionError\<close> exactly when \<^verbatim>\<open>step == 0\<close>, or
  \<^verbatim>\<open>max == min\<close>, or the quotient \<^verbatim>\<open>(max - min) / step\<close> is so small that it rounds to
  \<^verbatim>\<open>0.0\<close> (a magnitude of at most \<open>2 powi (- 1075)\<close>); it raises \<^verbatim>\<open>OverflowError\<close> when
  the magnitude of the quotient is \<open>2 powi 1024\<close> or more; and when the magnitude lies
  strictly between \<open>2 powi (- 1075)\<close> and \<open>2 powi 1023\<close> the interval is computed and
  the loop is entered.  As \<^verbatim>\<open>main\<close> calls it, the interval is 0.5 and the loop is entered.
\<close>

theorem cyclic_data_division:
  "(num_value step = Finite 0 \<longrightarrow>
      cyclic_data k data cycle_time step init minv maxv = ([], Some ZeroDivisionError) \<or>
      cyclic_data k data cycle_time step init minv maxv = ([], Some OverflowError)) \<and>
   (float_of_int ct = Inr c \<longrightarrow>
      (cyclic_data k data (PInt ct) (PInt st) init (PInt mn) (PInt mx) = ([], Some ZeroDivisionError)) =
        (st = 0 \<or> mx = mn \<or>
         st \<noteq> 0 \<and> \<bar>of_int (mx - mn) / of_int st :: rat\<bar> \<le> 2 powi (- 1075)) \<and>
      (st \<noteq> 0 \<and> 2 powi 1024 \<le> \<bar>of_int (mx - mn) / of_int st :: rat\<bar> \<longrightarrow>
         cyclic_data k data (PInt ct) (PInt st) init (PInt mn) (PInt mx) = ([], Some OverflowError)) \<and>
      (st \<noteq> 0 \<and> 2 powi (- 1075) < \<bar>of_int (mx - mn) / of_int st :: rat\<bar> \<and>
       \<bar>of_int (mx - mn) / of_int st :: rat\<bar> < 2 powi 1023 \<longrightarrow>
         (\<exists>refresh. cyclic_data k data (PInt ct) (PInt st) init (PInt mn) (PInt mx) =
            cyclic_loop k data (PFloat refresh) (PInt st) (PInt mn) (PInt mx) init True))) \<and>
   cyclic_task main k =
     cyclic_loop k 5 (PFloat (Finite (1 / 2))) (PFloat (Finite (1 / 2))) (PInt (- 100)) (PInt 100)
       (PInt 0) True"
proof (intro conjI impI)
  assume "num_value step = Finite 0"
  then show "cyclic_data k data cycle_time step init minv maxv = ([], Some ZeroDivisionError) \<or>
      cyclic_data k data cycle_time step init minv maxv = ([], Some OverflowError)"
    by (rule cyclic_data_step_zero)
next
  assume c: "float_of_int ct = Inr c"
  let ?x = "of_int (mx - mn) / of_int st :: rat"
  show "(cyclic_data k data (PInt ct) (PInt st) init (PInt mn) (PInt mx) = ([], Some ZeroDivisionError)) =
        (st = 0 \<or> mx = mn \<or> st \<noteq> 0 \<and> \<bar>?x\<bar> \<le> 2 powi (- 1075))"
  proof (cases "st = 0")
    case True
    then show ?thesis by (simp add: cyclic_data_def)
  next
    case False
    have zero: "mx = mn \<Longrightarrow> \<bar>?x\<bar> \<le> 2 powi (- 1075)" by simp
    show ?thesis
    proof (cases "round_double ?x")
      case (Finite r)
      have "(r = 0) = (\<bar>?x\<bar> \<le> 2 powi (- 1075))"
        using round_double_zero_iff [of ?x] Finite by simp
      with Finite False zero show ?thesis
        using cyclic_loop_not_zero_division
        by (auto simp add: cyclic_data_ints [OF c False])
    next
      case PosInf
      then have "\<not> \<bar>?x\<bar> \<le> 2 powi (- 1075)"
        using round_double_zero_iff [of ?x] by simp
      with PosInf False zero show ?thesis
        by (auto simp add: cyclic_data_ints [OF c False])
    next
      case NegInf
      then have "\<not> \<bar>?x\<bar> \<le> 2 powi (- 1075)"
        using round_double_zero_iff [of ?x] by simp
      with NegInf False zero show ?thesis
        by (auto simp add: cyclic_data_ints [OF c False])
    next
      case NaN
      then have "\<not> \<bar>?x\<bar> \<le> 2 powi (- 1075)"
        using round_double_zero_iff [of ?x] by simp
      with NaN False zero show ?thesis
        by (auto simp add: cyclic_data_ints [OF c False])
    qed
  qed
next
  assume c: "float_of_int ct = Inr c"
  let ?x = "of_int (mx - mn) / of_int st :: rat"
  assume a: "st \<noteq> 0 \<and> 2 powi 1024 \<le> \<bar>?x\<bar>"
  then have "round_double ?x = (if 0 < ?x then PosInf else NegInf)"
    by (intro round_double_overflow) simp
  with a show "cyclic_data k data (PInt ct) (PInt st) init (PInt mn) (PInt mx) =
      ([], Some OverflowError)"
    by (simp add: cyclic_data_ints [OF c])
next
  assume c: "float_of_int ct = Inr c"
  let ?x = "of_int (mx - mn) / of_int st :: rat"
  assume a: "st \<noteq> 0 \<and> 2 powi (- 1075) < \<bar>?x\<bar> \<and> \<bar>?x\<bar> < 2 powi 1023"
  then obtain r where r: "round_double ?x = Finite r"
    using round_double_finite [of ?x] by blast
  from a have "2 powi (- 1075) < \<bar>?x\<bar>" by (rule conjunct2 [THEN conjunct1])
  then have "\<not> \<bar>?x\<bar> \<le> 2 powi (- 1075)" by (simp only: not_le)
  with r have "r \<noteq> 0" using round_double_zero_iff [of ?x] by simp
  with r a have "cyclic_data k data (PInt ct) (PInt st) init (PInt mn) (PInt mx) =
      cyclic_loop k data (PFloat (float_div c (Finite r))) (PInt st) (PInt mn) (PInt mx) init True"
    by (simp add: cyclic_data_ints [OF c])
  then show "\<exists>refresh. cyclic_data k data (PInt ct) (PInt st) init (PInt mn) (PInt mx) =
      cyclic_loop k data (PFloat refresh) (PInt st) (PInt mn) (PInt mx) init True"
    by blast
next
  show "cyclic_task main k =
     cyclic_loop k 5 (PFloat (Finite (1 / 2))) (PFloat (Finite (1 / 2))) (PInt (- 100)) (PInt 100)
       (PInt 0) True"
    by (rule cyclic_task_main)
qed

lemma ten_pow_400_tiny: "\<bar>1 / 10 ^ 400 :: rat\<bar> \<le> 2 powi (- 1075)"
proof -
  have "(2::rat) ^ 1075 \<le> 2 ^ 1200" by (intro power_increasing) simp_all
  also have "\<dots> = (2 ^ 3) ^ 400" by (simp flip: power_mult)
  also have "\<dots> \<le> (10::rat) ^ 400" by (intro power_mono) simp_all
  finally have "(1::rat) / 10 ^ 400 \<le> 1 / 2 ^ 1075"
    by (intro divide_left_mono) simp_all
  then show ?thesis by (simp add: power_int_minus field_simps)
qed

lemma ten_pow_400_huge: "2 powi 1024 \<le> \<bar>10 ^ 400 :: rat\<bar>"
proof -
  have "(2::rat) ^ 1024 \<le> 2 ^ 1200" by (intro power_increasing) simp_all
  also have "\<dots> = (2 ^ 3) ^ 400" by (simp flip: power_mult)
  also have "\<dots> \<le> (10::rat) ^ 400" by (intro power_mono) simp_all
  finally show ?thesis by simp
qed

text \<open>
  Counterexample to claim C10 as stated: with \<^verbatim>\<open>step = 10 ** 400\<close>, \<^verbatim>\<open>min = 0\<close> and
  \<^verbatim>\<open>max = 1\<close> the step is not zero and the bounds differ, yet the quotient
  \<^verbatim>\<open>(max - min) / step\<close> rounds to \<^verbatim>\<open>0.0\<close> and the generator raises
  \<^verbatim>\<open>ZeroDivisionError\<close> before its first write.
\<close>

theorem cyclic_data_division_counterexample:
  "\<not> py_eq (PInt (10 ^ 400)) (PInt 0) \<and> \<not> py_eq (PInt 1) (PInt 0) \<and>
   cyclic_data 1 5 (PInt 200) (PInt (10 ^ 400)) (PInt 0) (PInt 0) (PInt 1) =
     ([], Some ZeroDivisionError)"
proof -
  have c: "float_of_int 200 = Inr (Finite 200)" by (simp add: float_of_int_numeral)
  have "round_double (1 / 10 ^ 400) = Finite 0"
    using ten_pow_400_tiny by (simp only: round_double_zero_iff)
  then have "cyclic_data 1 5 (PInt 200) (PInt (10 ^ 400)) (PInt 0) (PInt 0) (PInt 1) =
      ([], Some ZeroDivisionError)"
    by (simp add: cyclic_data_ints [OF c])
  then show ?thesis by (simp add: py_eq_def)
qed

theorem cyclic_data_division_witness:
  "num_value (PInt 0) = Finite 0 \<and>
   float_of_int 200 = Inr (Finite 200) \<and>
   cyclic_data 1 5 (PInt 200) (PInt 0) (PInt 0) (PInt (- 100)) (PInt 100) =
     ([], Some ZeroDivisionError) \<and>
   cyclic_data 1 5 (PInt 200) (PInt 1) (PInt 0) (PInt 7) (PInt 7) =
     ([], Some ZeroDivisionError) \<and>
   2 powi 1024 \<le> \<bar>of_int (10 ^ 400 - 0) / of_int 1 :: rat\<bar> \<and>
   cyclic_data 1 5 (PInt 200) (PInt 1) (PInt 0) (PInt 0) (PInt (10 ^ 400)) =
     ([], Some OverflowError) \<and>
   2 powi (- 1075) < \<bar>of_int (100 - (- 100)) / of_int 1 :: rat\<bar> \<and>
   \<bar>of_int (100 - (- 100)) / of_int 1 :: rat\<bar> < 2 powi 1023 \<and>
   (\<exists>refresh. cyclic_data 1 5 (PInt 200) (PInt 1) (PInt 0) (PInt (- 100)) (PInt 100) =
      cyclic_loop 1 5 (PFloat refresh) (PInt 1) (PInt (- 100)) (PInt 100) (PInt 0) True)"
proof -
  have z: "num_value (PInt 0) = Finite 0" by simp
  have c: "float_of_int 200 = Inr (Finite 200)" by (simp add: float_of_int_numeral)
  note t = cyclic_data_division [where step = "PInt 0" and k = 1 and data = 5
      and cycle_time = "PInt 200" and init = "PInt 0" and minv = "PInt (- 100)"
      and maxv = "PInt 100" and ct = 200 and c = "Finite 200"]
  note a = t [where st = 0 and mn = "- 100" and mx = 100, THEN conjunct2, THEN conjunct1,
      THEN mp, OF c, THEN conjunct1]
  note b = t [where st = 1 and mn = 7 and mx = 7, THEN conjunct2, THEN conjunct1,
      THEN mp, OF c, THEN conjunct1]
  note o = t [where st = 1 and mn = 0 and mx = "10 ^ 400", THEN conjunct2, THEN conjunct1,
      THEN mp, OF c, THEN conjunct2, THEN conjunct1, THEN mp]
  note l = t [where st = 1 and mn = "- 100" and mx = 100, THEN conjunct2, THEN conjunct1,
      THEN mp, OF c, THEN conjunct2, THEN conjunct2, THEN mp]
  have 1: "cyclic_data 1 5 (PInt 200) (PInt 0) (PInt 0) (PInt (- 100)) (PInt 100) =
     ([], Some ZeroDivisionError)"
    using a by simp
  have 2: "cyclic_data 1 5 (PInt 200) (PInt 1) (PInt 0) (PInt 7) (PInt 7) =
     ([], Some ZeroDivisionError)"
    using b by simp
  have h: "2 powi 1024 \<le> \<bar>of_int (10 ^ 400 - 0) / of_int 1 :: rat\<bar>"
    using ten_pow_400_huge by simp
  have 3: "cyclic_data 1 5 (PInt 200) (PInt 1) (PInt 0) (PInt 0) (PInt (10 ^ 400)) =
     ([], Some OverflowError)"
    by (rule o) (use h in simp)
  have lo: "2 powi (- 1075) < \<bar>of_int (100 - (- 100)) / of_int 1 :: rat\<bar>"
  proof -
    have "(2::rat) powi (- 1075) \<le> 2 powi 0" by (intro power_int_increasing) simp_all
    then show ?thesis by simp
  qed
  have hi: "\<bar>of_int (100 - (- 100)) / of_int 1 :: rat\<bar> < 2 powi 1023"
  proof -
    have "(2::rat) powi 8 \<le> 2 powi 1023" by (intro power_int_increasing) simp_all
    then show ?thesis by simp
  qed
  have 4: "\<exists>refresh. cyclic_data 1 5 (PInt 200) (PInt 1) (PInt 0) (PInt (- 100)) (PInt 100) =
      cyclic_loop 1 5 (PFloat refresh) (PInt 1) (PInt (- 100)) (PInt 100) (PInt 0) True"
    by (rule l) (use lo hi in simp)
  show ?thesis
    by (intro conjI z c 1 2 h 3 lo hi 4)
qed

end
